theory Spec2Isabelle
  imports Main "HOL-Library.Word"
begin

unbundle bit_operations_syntax

section \<open>Target types and constants\<close>

text \<open>
  The sketch runs on an ATmega32U4: \<open>int\<close> is 16 bits wide, \<open>byte\<close> is an unsigned
  8-bit value, and \<open>char\<close> is one byte.  C characters are HOL characters, bytes are
  8-bit words, and the values of C \<open>int\<close> variables are HOL integers (every \<open>int\<close> of the
  sketch stays far inside the 16-bit range, except the result of \<open>atoi\<close>, where the
  16-bit accumulator is written out).
\<close>

type_synonym byte = "8 word"

abbreviation NUL :: char where "NUL \<equiv> CHR 0x00"
abbreviation LF :: char where "LF \<equiv> CHR 0x0A"
abbreviation CR :: char where "CR \<equiv> CHR 0x0D"

definition ROWS :: nat where "ROWS = 2"
definition COLS :: nat where "COLS = 4"
definition KEYCOUNT :: nat where "KEYCOUNT = ROWS * COLS"

definition ledPin :: "nat list" where
  "ledPin = [2, 3, 4, 5, 6, 7, 8, 9]"

text \<open>Key codes of the Arduino Keyboard library (\<open>Keyboard.h\<close>) used by the defaults.\<close>

definition KEY_F13 :: char where "KEY_F13 = CHR 0xF0"
definition KEY_F14 :: char where "KEY_F14 = CHR 0xF1"
definition KEY_F15 :: char where "KEY_F15 = CHR 0xF2"
definition KEY_F16 :: char where "KEY_F16 = CHR 0xF3"
definition KEY_F17 :: char where "KEY_F17 = CHR 0xF4"
definition KEY_F18 :: char where "KEY_F18 = CHR 0xF5"
definition KEY_F21 :: char where "KEY_F21 = CHR 0xF8"
definition KEY_F22 :: char where "KEY_F22 = CHR 0xF9"

record ConfigData =
  keyMap1 :: "char list"
  keyMap2 :: "char list"
  ledConfig1 :: "char list"
  ledConfig2 :: "char list"

definition default_config :: ConfigData where
  "default_config =
     \<lparr> keyMap1 = [KEY_F13, KEY_F14, KEY_F15, KEY_F16, KEY_F17, KEY_F18, KEY_F21, KEY_F22],
       keyMap2 = ''12345678'',
       ledConfig1 = ''tttttttt'',
       ledConfig2 = ''tttttttt'' \<rparr>"

definition ledAnimation :: "(int \<times> int) list" where
  "ledAnimation =
     [(1, 8), (2, 7), (3, 6), (4, 5), (8, 1), (7, 2), (6, 3), (5, 4), (1, 8)]"

section \<open>Hardware effects and the machine state\<close>

text \<open>
  The strings kept in program memory are named, as in the sketch; \<open>println_P\<close> prints one
  of them followed by a line break.
\<close>

datatype progmem =
    VERSION | MSG_HELP_START | MSG_HELP | MSG_VERSION | MSG_GETLED | MSG_TOGGLE | MSG_ON
  | MSG_OFF | MSG_FLASH | MSG_ANIMATION | MSG_USEMAP | MSG_CONFIGTOGGLE | MSG_SHOWSETTINGS
  | MSG_SETKEYCODE | MSG_SETKEYCHAR | MSG_PERSIST | MSG_LOAD | MSG_HELP_END

datatype level = LOW | HIGH

text \<open>
  Everything the sketch does to the outside world is appended to a trace, in program order:
  pin writes, blocking delays, text written to the serial port and key strokes sent over USB.
\<close>

datatype effect =
    SerialBegin nat
  | KeyboardBegin
  | PinModeOutput nat
  | DigitalWrite nat level
  | Delay nat
  | SerialPrint string
  | Println_P progmem
  | KeyboardWrite char

text \<open>
  The globals of the sketch.  \<open>readBuffer\<close> holds the bytes of the array below
  \<open>readBufferPtr\<close>, so the pointer is \<open>readBuffer + length\<close>: every store through the
  pointer writes the character and then a terminating NUL behind it, and
  \<open>clearReadBuffer\<close> resets both, so the bytes at and above the pointer are never read
  before they are written again.  \<open>strtok_save\<close> is the C library's hidden \<open>strtok\<close>
  position: the text that has not been scanned yet.  \<open>eeprom\<close> is the non-volatile memory.
\<close>

record state =
  config :: ConfigData
  useAlternateKeyMap :: bool
  ledState :: "byte list"
  lastKey :: char
  readBuffer :: string
  strtok_save :: string
  eeprom :: "nat \<Rightarrow> byte"
  trace :: "effect list"

definition emit :: "effect list \<Rightarrow> state \<Rightarrow> state" where
  "emit es s = s\<lparr>trace := trace s @ es\<rparr>"

definition println :: "string \<Rightarrow> effect" where
  "println str = SerialPrint (str @ [CR, LF])"

definition power_on :: "(nat \<Rightarrow> byte) \<Rightarrow> state" where
  "power_on e =
     \<lparr> config = default_config, useAlternateKeyMap = False,
       ledState = replicate KEYCOUNT 0, lastKey = CHR ''-'',
       readBuffer = [], strtok_save = [], eeprom = e, trace = [] \<rparr>"

section \<open>C library functions used by the sketch\<close>

definition strlen :: "string \<Rightarrow> nat" where
  "strlen buf = length (takeWhile (\<lambda>c. c \<noteq> NUL) buf)"

text \<open>
  One \<open>strtok\<close> scan with the delimiter \<open>" "\<close>: the token found and the text behind it.
  (\<open>strtok\<close> also overwrites the delimiter behind the token with NUL; the sketch does not
  read the buffer again before \<open>clearReadBuffer\<close>, so the buffer is left as it is here.)
\<close>

definition strtok_scan :: "string \<Rightarrow> string option \<times> string" where
  "strtok_scan p =
     (let q = dropWhile (\<lambda>c. c = CHR '' '') p in
      if q = [] then (None, [])
      else (Some (takeWhile (\<lambda>c. c \<noteq> CHR '' '') q),
            drop 1 (dropWhile (\<lambda>c. c \<noteq> CHR '' '') q)))"

definition strtok_readBuffer :: "state \<Rightarrow> string option \<times> state" where
  "strtok_readBuffer s =
     (case strtok_scan (takeWhile (\<lambda>c. c \<noteq> NUL) (readBuffer s)) of
        (w, rest) \<Rightarrow> (w, s\<lparr>strtok_save := rest\<rparr>))"

definition strtok_NULL :: "state \<Rightarrow> string option \<times> state" where
  "strtok_NULL s =
     (case strtok_scan (strtok_save s) of
        (w, rest) \<Rightarrow> (w, s\<lparr>strtok_save := rest\<rparr>))"

definition isspace :: "char \<Rightarrow> bool" where
  "isspace c = (c = CHR '' '' \<or> (9 :: nat) \<le> of_char c \<and> (of_char c :: nat) \<le> 13)"

definition isdigit :: "char \<Rightarrow> bool" where
  "isdigit c = ((48 :: nat) \<le> of_char c \<and> (of_char c :: nat) \<le> 57)"

fun atoi_digits :: "16 word \<Rightarrow> string \<Rightarrow> 16 word" where
  "atoi_digits acc [] = acc"
| "atoi_digits acc (c # cs) =
     (if isdigit c then atoi_digits (acc * 10 + (of_nat (of_char c) - 48)) cs else acc)"

text \<open>
  \<open>atoi\<close> of avr-libc: white space, an optional sign, then decimal digits accumulated in a
  16-bit register (so the value wraps); text without a leading digit gives 0.
\<close>

definition atoi :: "string \<Rightarrow> int" where
  "atoi str =
     (case dropWhile isspace str of
        [] \<Rightarrow> 0
      | c # cs \<Rightarrow>
          if c = CHR ''-'' then sint (- atoi_digits 0 cs)
          else if c = CHR ''+'' then sint (atoi_digits 0 cs)
          else sint (atoi_digits 0 (c # cs)))"

fun strstr :: "string \<Rightarrow> string \<Rightarrow> bool" where
  "strstr [] needle = (needle = [])"
| "strstr (h # hs) needle = (take (length needle) (h # hs) = needle \<or> strstr hs needle)"

text \<open>Decimal text, as \<open>Serial.print\<close> and \<open>%d\<close> produce it.\<close>

fun dec_nat :: "nat \<Rightarrow> string" where
  "dec_nat n =
     (if n < 10 then [char_of (48 + n)]
      else dec_nat (n div 10) @ [char_of (48 + n mod 10)])"

definition dec :: "int \<Rightarrow> string" where
  "dec i = (if i < 0 then CHR ''-'' # dec_nat (nat (- i)) else dec_nat (nat i))"

section \<open>LED control\<close>

definition setLed :: "int \<Rightarrow> int \<Rightarrow> state \<Rightarrow> state" where
  "setLed nr onOff s =
     (if nr < 0 \<or> nr \<ge> int KEYCOUNT \<or> onOff < 0 \<or> onOff > 1 then s
      else emit [DigitalWrite (ledPin ! nat nr) (if onOff = 1 then LOW else HIGH)]
             (s\<lparr>ledState := (ledState s)[nat nr := word_of_int onOff]\<rparr>))"

definition toggleLed :: "int \<Rightarrow> state \<Rightarrow> state" where
  "toggleLed nr s =
     (if nr < 0 \<or> nr \<ge> int KEYCOUNT then s
      else if ledState s ! nat nr = 0 then setLed nr 1 s
      else setLed nr 0 s)"

definition executeLedConfig :: "int \<Rightarrow> state \<Rightarrow> state" where
  "executeLedConfig nr s =
     (if nr < 0 \<or> nr \<ge> int KEYCOUNT then s
      else
        let setting = (if useAlternateKeyMap s then ledConfig2 (config s) ! nat nr
                       else ledConfig1 (config s) ! nat nr);
            s1 = (if setting = CHR ''t'' then toggleLed nr s else s);
            s2 = (if setting = CHR ''e'' then setLed nr 1 s1 else s1);
            s3 = (if setting = CHR ''d'' then setLed nr 0 s2 else s2)
        in if setting = CHR ''f''
           then emit [Delay 150] (setLed nr 0 (emit [Delay 150] (setLed nr 1 s3)))
           else s3)"

text \<open>One pass of the frame loop of \<open>startupLedAnimation\<close>, for frame index \<open>i\<close>.\<close>

definition animationFrame :: "nat \<Rightarrow> state \<Rightarrow> state" where
  "animationFrame i s =
     (let s1 = setLed (fst (ledAnimation ! i) - 1) 1 s;
          s2 = setLed (snd (ledAnimation ! i) - 1) 1 s1;
          s3 = (if i > 0
                then setLed (snd (ledAnimation ! (i - 1)) - 1) 0
                       (setLed (fst (ledAnimation ! (i - 1)) - 1) 0 s2)
                else s2)
      in emit [Delay 250] s3)"

definition startupLedAnimation :: "state \<Rightarrow> state" where
  "startupLedAnimation s =
     (let currentLedState = ledState s;
          s1 = fold animationFrame [0..<length ledAnimation] s;
          s2 = setLed (fst (ledAnimation ! (length ledAnimation - 1)) - 1) 0 s1;
          s3 = setLed (snd (ledAnimation ! (length ledAnimation - 1)) - 1) 0 s2
      in fold (\<lambda>i. setLed (int i) (uint (currentLedState ! i))) [0..<KEYCOUNT] s3)"

section \<open>Serial command handlers\<close>

definition parseNumber :: "int \<Rightarrow> int \<Rightarrow> state \<Rightarrow> int \<times> state" where
  "parseNumber minValue maxValue s =
     (case strtok_NULL s of
        (None, s1) \<Rightarrow> (- 1, emit [SerialPrint (''Error, missing number'' @ [LF])] s1)
      | (Some nextword, s1) \<Rightarrow>
          (let nr = atoi nextword in
           if nr < minValue \<or> nr > maxValue
           then (- 1, emit [SerialPrint ''Error, expected number from '',
                            SerialPrint (dec minValue),
                            SerialPrint '' to '',
                            println (dec maxValue)] s1)
           else (nr, s1)))"

text \<open>
  The help column of the handler table, in table order.  \<open>handleHelp\<close> walks the table and
  is itself an entry of it, so the column it reads is stated first.
\<close>

definition help_column :: "progmem list" where
  "help_column =
     [MSG_HELP, MSG_VERSION, MSG_GETLED, MSG_TOGGLE, MSG_ON, MSG_OFF, MSG_FLASH,
      MSG_ANIMATION, MSG_USEMAP, MSG_CONFIGTOGGLE, MSG_SHOWSETTINGS, MSG_SETKEYCODE,
      MSG_SETKEYCHAR, MSG_PERSIST, MSG_LOAD]"

definition handleHelp :: "state \<Rightarrow> int \<times> state" where
  "handleHelp s =
     (0, emit ([Println_P MSG_HELP_START] @ map Println_P help_column @ [Println_P MSG_HELP_END]) s)"

definition handleVersion :: "state \<Rightarrow> int \<times> state" where
  "handleVersion s = (0, emit [Println_P VERSION] s)"

definition handleGetLed :: "state \<Rightarrow> int \<times> state" where
  "handleGetLed s =
     (case parseNumber 1 (int KEYCOUNT) s of
        (nr, s1) \<Rightarrow>
          if nr = - 1 then (1, s1)
          else (0, emit [println (dec (uint (ledState s1 ! nat (nr - 1))))] s1))"

definition handleToggle :: "state \<Rightarrow> int \<times> state" where
  "handleToggle s =
     (case parseNumber 1 (int KEYCOUNT) s of
        (nr, s1) \<Rightarrow> if nr = - 1 then (1, s1) else (0, toggleLed (nr - 1) s1))"

definition handleOn :: "state \<Rightarrow> int \<times> state" where
  "handleOn s =
     (case parseNumber 1 (int KEYCOUNT) s of
        (nr, s1) \<Rightarrow> if nr = - 1 then (1, s1) else (0, setLed (nr - 1) 1 s1))"

definition handleOff :: "state \<Rightarrow> int \<times> state" where
  "handleOff s =
     (case parseNumber 1 (int KEYCOUNT) s of
        (nr, s1) \<Rightarrow> if nr = - 1 then (1, s1) else (0, setLed (nr - 1) 0 s1))"

definition handleFlash :: "state \<Rightarrow> int \<times> state" where
  "handleFlash s =
     (case parseNumber 1 (int KEYCOUNT) s of
        (nr, s1) \<Rightarrow>
          if nr = - 1 then (1, s1)
          else (case parseNumber 10 500 s1 of
                  (ms, s2) \<Rightarrow>
                    if ms = - 1 then (1, s2)
                    else (0, emit [Delay (nat ms)]
                               (setLed (nr - 1) 0
                                  (emit [Delay (nat ms)] (setLed (nr - 1) 1 s2))))))"

definition handleAnimation :: "state \<Rightarrow> int \<times> state" where
  "handleAnimation s = (0, startupLedAnimation s)"

definition handleActivateKeyMap :: "state \<Rightarrow> int \<times> state" where
  "handleActivateKeyMap s =
     (case parseNumber 1 2 s of
        (nr, s1) \<Rightarrow>
          if nr = - 1 then (1, s1) else (0, s1\<lparr>useAlternateKeyMap := (nr = 2)\<rparr>))"

definition handleConfigToggle :: "state \<Rightarrow> int \<times> state" where
  "handleConfigToggle s =
     (case parseNumber 1 (int KEYCOUNT) s of
        (nr, s1) \<Rightarrow>
          if nr = - 1 then (1, s1)
          else (case strtok_NULL s1 of
                  (None, s2) \<Rightarrow>
                    (1, emit [println ''Expected setting flag, one of [t,e,d,f].''] s2)
                | (Some setting, s2) \<Rightarrow>
                    if \<not> strstr ''tedf'' setting \<or> length setting \<noteq> 1
                    then (1, emit [println ''Expected setting flag, one of [t,e,d,f].''] s2)
                    else if useAlternateKeyMap s2
                    then (0, s2\<lparr>config := (config s2)
                               \<lparr>ledConfig2 := (ledConfig2 (config s2))[nat (nr - 1) := setting ! 0]\<rparr>\<rparr>)
                    else (0, s2\<lparr>config := (config s2)
                               \<lparr>ledConfig1 := (ledConfig1 (config s2))[nat (nr - 1) := setting ! 0]\<rparr>\<rparr>)))"

text \<open>
  One line of \<open>handleShowSettings\<close> for the zero-based key \<open>i\<close>, as \<open>sprintf\<close> builds it;
  \<open>Serial.println\<close> prints it up to the first NUL.
\<close>

definition settingsLine :: "state \<Rightarrow> nat \<Rightarrow> string" where
  "settingsLine s i =
     takeWhile (\<lambda>c. c \<noteq> NUL)
       (''key '' @ dec (int i + 1) @
        '', led: '' @ (if ledState s ! i \<noteq> 0 then ''on'' else ''off'') @
        '', ledconfig: '' @
          [if useAlternateKeyMap s then ledConfig2 (config s) ! i else ledConfig1 (config s) ! i] @
        '', keycode: '' @
          dec (of_char (if useAlternateKeyMap s then keyMap2 (config s) ! i
                        else keyMap1 (config s) ! i)))"

definition handleShowSettings :: "state \<Rightarrow> int \<times> state" where
  "handleShowSettings s =
     (0, emit (println (if useAlternateKeyMap s then ''map 2 active'' else ''map 1 active'')
               # map (\<lambda>i. println (settingsLine s i)) [0..<KEYCOUNT]) s)"

definition handleSetKeyCode :: "state \<Rightarrow> int \<times> state" where
  "handleSetKeyCode s =
     (case parseNumber 1 (int KEYCOUNT) s of
        (nr, s1) \<Rightarrow>
          if nr = - 1 then (1, s1)
          else (case parseNumber 0 255 s1 of
                  (code, s2) \<Rightarrow>
                    if code = - 1 then (1, s2)
                    else if useAlternateKeyMap s2
                    then (0, s2\<lparr>config := (config s2)
                               \<lparr>keyMap2 := (keyMap2 (config s2))[nat (nr - 1) := char_of (code AND 255)]\<rparr>\<rparr>)
                    else (0, s2\<lparr>config := (config s2)
                               \<lparr>keyMap1 := (keyMap1 (config s2))[nat (nr - 1) := char_of (code AND 255)]\<rparr>\<rparr>)))"

definition handleSetKeyChar :: "state \<Rightarrow> int \<times> state" where
  "handleSetKeyChar s =
     (case parseNumber 1 (int KEYCOUNT) s of
        (nr, s1) \<Rightarrow>
          if nr = - 1 then (1, s1)
          else (case strtok_NULL s1 of
                  (None, s2) \<Rightarrow> (1, emit [println ''Expected single character.''] s2)
                | (Some v, s2) \<Rightarrow>
                    if length v \<noteq> 1
                    then (1, emit [println ''Expected single character.''] s2)
                    else if useAlternateKeyMap s2
                    then (0, s2\<lparr>config := (config s2)
                               \<lparr>keyMap2 := (keyMap2 (config s2))[nat (nr - 1) := v ! 0]\<rparr>\<rparr>)
                    else (0, s2\<lparr>config := (config s2)
                               \<lparr>keyMap1 := (keyMap1 (config s2))[nat (nr - 1) := v ! 0]\<rparr>\<rparr>)))"

subsection \<open>Persistence\<close>

text \<open>\<open>EEPROM.put\<close> and \<open>EEPROM.get\<close> move the bytes of an object, lowest address first.\<close>

fun EEPROM_put :: "nat \<Rightarrow> byte list \<Rightarrow> (nat \<Rightarrow> byte) \<Rightarrow> (nat \<Rightarrow> byte)" where
  "EEPROM_put a [] e = e"
| "EEPROM_put a (b # bs) e = EEPROM_put (Suc a) bs (e(a := b))"

fun EEPROM_get :: "nat \<Rightarrow> nat \<Rightarrow> (nat \<Rightarrow> byte) \<Rightarrow> byte list" where
  "EEPROM_get a 0 e = []"
| "EEPROM_get a (Suc n) e = e a # EEPROM_get (Suc a) n e"

definition sizeof_int :: nat where "sizeof_int = 2"

text \<open>A 16-bit \<open>int\<close> in memory, low byte first.\<close>

definition int_bytes :: "16 word \<Rightarrow> byte list" where
  "int_bytes v = [ucast v, ucast (drop_bit 8 v)]"

definition int_of_bytes :: "byte list \<Rightarrow> 16 word" where
  "int_of_bytes bs = ucast (bs ! 0) OR push_bit 8 (ucast (bs ! 1))"

text \<open>The byte image of \<open>struct ConfigData\<close>: four \<open>char[KEYCOUNT]\<close> members in order.\<close>

definition ConfigData_bytes :: "ConfigData \<Rightarrow> byte list" where
  "ConfigData_bytes c =
     map (\<lambda>ch. of_nat (of_char ch)) (keyMap1 c @ keyMap2 c @ ledConfig1 c @ ledConfig2 c)"

definition sizeof_ConfigData :: nat where "sizeof_ConfigData = 4 * KEYCOUNT"

definition ConfigData_of_bytes :: "byte list \<Rightarrow> ConfigData" where
  "ConfigData_of_bytes bs =
     (let cs = map (\<lambda>b. char_of (unat b)) bs in
      \<lparr> keyMap1 = take KEYCOUNT cs,
        keyMap2 = take KEYCOUNT (drop KEYCOUNT cs),
        ledConfig1 = take KEYCOUNT (drop (2 * KEYCOUNT) cs),
        ledConfig2 = take KEYCOUNT (drop (3 * KEYCOUNT) cs) \<rparr>)"

definition handlePersist :: "state \<Rightarrow> int \<times> state" where
  "handlePersist s =
     (let eeAddress = 0;
          version = 2306;
          e1 = EEPROM_put eeAddress (int_bytes version) (eeprom s);
          eeAddress = eeAddress + sizeof_int;
          e2 = EEPROM_put eeAddress (ConfigData_bytes (config s)) e1
      in (0, emit [println ''Config persisted.''] (s\<lparr>eeprom := e2\<rparr>)))"

definition handleLoad :: "state \<Rightarrow> int \<times> state" where
  "handleLoad s =
     (let eeAddress = 0;
          version = int_of_bytes (EEPROM_get eeAddress sizeof_int (eeprom s))
      in if version = 2306
         then (0, emit [println ''Config loaded.'']
                    (s\<lparr>config := ConfigData_of_bytes
                                   (EEPROM_get sizeof_int sizeof_ConfigData (eeprom s))\<rparr>))
         else (0, s))"

subsection \<open>The handler table and the dispatcher\<close>

record HandlerEntry =
  shortcode :: string
  command :: string
  helptext :: progmem
  handler :: "state \<Rightarrow> int \<times> state"

definition handlers :: "HandlerEntry list" where
  "handlers =
     [\<lparr>shortcode = ''?'', command = ''help'', helptext = MSG_HELP, handler = handleHelp\<rparr>,
      \<lparr>shortcode = ''v'', command = ''version'', helptext = MSG_VERSION, handler = handleVersion\<rparr>,
      \<lparr>shortcode = ''g'', command = ''getled'', helptext = MSG_GETLED, handler = handleGetLed\<rparr>,
      \<lparr>shortcode = ''t'', command = ''toggle'', helptext = MSG_TOGGLE, handler = handleToggle\<rparr>,
      \<lparr>shortcode = ''e'', command = ''on'', helptext = MSG_ON, handler = handleOn\<rparr>,
      \<lparr>shortcode = ''d'', command = ''off'', helptext = MSG_OFF, handler = handleOff\<rparr>,
      \<lparr>shortcode = ''f'', command = ''flash'', helptext = MSG_FLASH, handler = handleFlash\<rparr>,
      \<lparr>shortcode = ''a'', command = ''animation'', helptext = MSG_ANIMATION,
        handler = handleAnimation\<rparr>,
      \<lparr>shortcode = ''u'', command = ''usemap'', helptext = MSG_USEMAP,
        handler = handleActivateKeyMap\<rparr>,
      \<lparr>shortcode = ''c'', command = ''configtoggle'', helptext = MSG_CONFIGTOGGLE,
        handler = handleConfigToggle\<rparr>,
      \<lparr>shortcode = ''s'', command = ''showsettings'', helptext = MSG_SHOWSETTINGS,
        handler = handleShowSettings\<rparr>,
      \<lparr>shortcode = ''k'', command = ''setkeycode'', helptext = MSG_SETKEYCODE,
        handler = handleSetKeyCode\<rparr>,
      \<lparr>shortcode = ''h'', command = ''setkeychar'', helptext = MSG_SETKEYCHAR,
        handler = handleSetKeyChar\<rparr>,
      \<lparr>shortcode = ''p'', command = ''persist'', helptext = MSG_PERSIST, handler = handlePersist\<rparr>,
      \<lparr>shortcode = ''l'', command = ''load'', helptext = MSG_LOAD, handler = handleLoad\<rparr>]"

text \<open>The table search of \<open>executeSerialCommands\<close>: the first entry whose name or shortcode is the word.\<close>

definition lookup_handler :: "string \<Rightarrow> HandlerEntry option" where
  "lookup_handler word = find (\<lambda>h. command h = word \<or> shortcode h = word) handlers"

text \<open>
  The \<open>while\<close> loop of \<open>executeSerialCommands\<close>, entered with the current word.  A handler
  that returns non-zero ends the line; so does a word that no table entry matches.
\<close>

function executeSerialCommands_loop :: "string \<Rightarrow> state \<Rightarrow> state" where
  "executeSerialCommands_loop word s =
     (case lookup_handler word of
        None \<Rightarrow> emit [SerialPrint (''Unknown Command Error'' @ [LF])] s
      | Some h \<Rightarrow>
          (case handler h s of
             (r, s1) \<Rightarrow>
               if r \<noteq> 0 then s1
               else (case strtok_NULL s1 of
                       (None, s2) \<Rightarrow> s2
                     | (Some word', s2) \<Rightarrow> executeSerialCommands_loop word' s2)))"
  by pat_completeness auto

definition executeSerialCommands :: "state \<Rightarrow> state" where
  "executeSerialCommands s =
     (case strtok_readBuffer s of
        (None, s1) \<Rightarrow> s1
      | (Some word, s1) \<Rightarrow> executeSerialCommands_loop word s1)"

section \<open>Serial input, start-up and the main loop\<close>

definition clearReadBuffer :: "state \<Rightarrow> state" where
  "clearReadBuffer s = s\<lparr>readBuffer := []\<rparr>"

text \<open>
  \<open>readBuffer\<close> has 80 elements.  A store through \<open>readBufferPtr\<close> writes the character at
  the pointer and a NUL behind it; when the pointer is at index 79 or beyond, that leaves
  the array, and the run ends in \<open>BufferOverflow\<close>.
\<close>

datatype fault = BufferOverflow | KeyIndexOutOfRange

definition sizeof_readBuffer :: nat where "sizeof_readBuffer = 80"

text \<open>One pass of the \<open>while\<close> loop of \<open>handleSerialReceive\<close>, for the byte read.\<close>

definition handleSerialReceive_step :: "char \<Rightarrow> state \<Rightarrow> fault + state" where
  "handleSerialReceive_step ser s =
     (case (if strlen (readBuffer s) < sizeof_readBuffer - 1 \<and> ser \<noteq> CR \<and> ser \<noteq> LF
            then (if length (readBuffer s) + 1 < sizeof_readBuffer
                  then Inr (s\<lparr>readBuffer := readBuffer s @ [ser]\<rparr>)
                  else Inl BufferOverflow)
            else Inr s) of
        Inl f \<Rightarrow> Inl f
      | Inr s1 \<Rightarrow>
          if (ser = CR \<or> ser = LF) \<and> strlen (readBuffer s1) > 0
          then Inr (clearReadBuffer (executeSerialCommands s1))
          else Inr s1)"

text \<open>\<open>handleSerialReceive\<close> on the bytes the serial port has available, oldest first.\<close>

fun handleSerialReceive :: "string \<Rightarrow> state \<Rightarrow> fault + state" where
  "handleSerialReceive [] s = Inr s"
| "handleSerialReceive (ser # avail) s =
     (case handleSerialReceive_step ser s of
        Inl f \<Rightarrow> Inl f
      | Inr s1 \<Rightarrow> handleSerialReceive avail s1)"

text \<open>The sketch's \<open>setup()\<close>, run once after power-on.\<close>

definition setup_sketch :: "state \<Rightarrow> state" where
  "setup_sketch s =
     (let s1 = emit [SerialBegin 115200] s;
          s2 = snd (handleLoad s1);
          s3 = clearReadBuffer s2;
          s4 = fold (\<lambda>i st. setLed (int i) 0 (emit [PinModeOutput (ledPin ! i)] st))
                 [0..<KEYCOUNT] s3;
          s5 = emit [KeyboardBegin] s4
      in startupLedAnimation s5)"

text \<open>
  One pass of \<open>loop\<close> (without \<open>DOUBLE_CLICK_TEST\<close>): \<open>avail\<close> are the bytes waiting on the
  serial port and \<open>key\<close> is what \<open>keypad.getKey()\<close> returns, an entry of the key matrix
  (1 to 8) or 0 for no key.  The clock (\<open>millis\<close>, \<open>startTime\<close>) is only read by the
  disabled double-click code and is left out.
\<close>

definition loop :: "string \<Rightarrow> nat \<Rightarrow> state \<Rightarrow> fault + state" where
  "loop avail key s =
     (case handleSerialReceive avail s of
        Inl f \<Rightarrow> Inl f
      | Inr s1 \<Rightarrow>
          if key \<noteq> 0 then
            (let keyIndex = key - 1 in
             if keyIndex < KEYCOUNT then
               Inr (emit [Delay 20]
                      (executeLedConfig (int keyIndex)
                         ((emit [KeyboardWrite
                                   (if useAlternateKeyMap s1 then keyMap2 (config s1) ! keyIndex
                                    else keyMap1 (config s1) ! keyIndex)] s1)
                          \<lparr>lastKey := char_of key\<rparr>)))
             else Inl KeyIndexOutOfRange)
          else Inr (emit [Delay 20] s1))"

section \<open>Invariants and the behaviour the specification describes\<close>

text \<open>Each of the 8 entries of \<open>ledState\<close> is 0 (off) or 1 (on).\<close>

definition led_inv :: "state \<Rightarrow> bool" where
  "led_inv s = (length (ledState s) = KEYCOUNT \<and> list_all (\<lambda>b. b = 0 \<or> b = 1) (ledState s))"

text \<open>A \<open>struct ConfigData\<close> holds four arrays of \<open>KEYCOUNT\<close> characters.\<close>

definition wf_config :: "ConfigData \<Rightarrow> bool" where
  "wf_config c =
     (length (keyMap1 c) = KEYCOUNT \<and> length (keyMap2 c) = KEYCOUNT \<and>
      length (ledConfig1 c) = KEYCOUNT \<and> length (ledConfig2 c) = KEYCOUNT)"

text \<open>
  The animation in the words of the specification, as the effects it must produce.  LEDs are
  numbered from 1; a LED is lit by driving its pin low.  Every frame lights its pair, puts
  out the pair of the frame before (the first frame has none) and holds for 250 ms; after
  the last frame its pair is put out; then every LED is driven to its state in the snapshot.
\<close>

definition led_on :: "int \<Rightarrow> effect" where
  "led_on k = DigitalWrite (ledPin ! nat (k - 1)) LOW"

definition led_off :: "int \<Rightarrow> effect" where
  "led_off k = DigitalWrite (ledPin ! nat (k - 1)) HIGH"

fun frames_spec :: "(int \<times> int) option \<Rightarrow> (int \<times> int) list \<Rightarrow> effect list" where
  "frames_spec previous [] =
     (case previous of None \<Rightarrow> [] | Some (c, d) \<Rightarrow> [led_off c, led_off d])"
| "frames_spec previous ((a, b) # frames) =
     [led_on a, led_on b]
     @ (case previous of None \<Rightarrow> [] | Some (c, d) \<Rightarrow> [led_off c, led_off d])
     @ [Delay 250]
     @ frames_spec (Some (a, b)) frames"

definition restore_spec :: "byte list \<Rightarrow> effect list" where
  "restore_spec snapshot =
     map (\<lambda>i. DigitalWrite (ledPin ! i) (if snapshot ! i = 1 then LOW else HIGH)) [0..<KEYCOUNT]"

definition animation_spec :: "byte list \<Rightarrow> effect list" where
  "animation_spec snapshot = frames_spec None ledAnimation @ restore_spec snapshot"

text \<open>
  The numeric arguments of each verb and their inclusive ranges, as the verb table of the
  specification declares them (numeric arguments come first for every verb).
\<close>

definition declared_ranges :: "(string \<times> (int \<times> int) list) list" where
  "declared_ranges =
     [(''getled'', [(1, 8)]), (''toggle'', [(1, 8)]), (''on'', [(1, 8)]), (''off'', [(1, 8)]),
      (''flash'', [(1, 8), (10, 500)]), (''usemap'', [(1, 2)]), (''configtoggle'', [(1, 8)]),
      (''setkeycode'', [(1, 8), (0, 255)]), (''setkeychar'', [(1, 8)])]"

text \<open>The text of the range error for the range \<open>(lo, hi)\<close>.\<close>

definition range_error :: "int \<times> int \<Rightarrow> effect list" where
  "range_error r =
     [SerialPrint ''Error, expected number from '', SerialPrint (dec (fst r)),
      SerialPrint '' to '', println (dec (snd r))]"

text \<open>The next \<open>n\<close> tokens of the line, if the line has that many, and the state behind them.\<close>

fun read_args :: "nat \<Rightarrow> state \<Rightarrow> (string list \<times> state) option" where
  "read_args 0 s = Some ([], s)"
| "read_args (Suc n) s =
     (case strtok_NULL s of
        (None, s1) \<Rightarrow> None
      | (Some w, s1) \<Rightarrow>
          (case read_args n s1 of
             None \<Rightarrow> None
           | Some (ws, s2) \<Rightarrow> Some (w # ws, s2)))"

section \<open>Termination of the dispatcher\<close>

lemma strtok_scan_length:
  "length (snd (strtok_scan p)) \<le> length p"
proof -
  let ?q = "dropWhile (\<lambda>c. c = CHR '' '') p"
  have "length (drop 1 (dropWhile (\<lambda>c. c \<noteq> CHR '' '') ?q)) \<le> length ?q"
    using length_dropWhile_le [of "\<lambda>c. c \<noteq> CHR '' ''" ?q] by simp
  also have "\<dots> \<le> length p"
    by (rule length_dropWhile_le)
  finally show ?thesis
    by (simp add: strtok_scan_def Let_def)
qed

lemma strtok_scan_Some_length:
  assumes "strtok_scan p = (Some w, rest)"
  shows "length rest < length p"
proof -
  let ?q = "dropWhile (\<lambda>c. c = CHR '' '') p"
  from assms have q: "?q \<noteq> []" and w: "w = takeWhile (\<lambda>c. c \<noteq> CHR '' '') ?q"
    and r: "rest = drop 1 (dropWhile (\<lambda>c. c \<noteq> CHR '' '') ?q)"
    by (auto simp: strtok_scan_def Let_def split: if_splits)
  from q have "hd ?q \<noteq> CHR '' ''"
    using hd_dropWhile [of "\<lambda>c. c = CHR '' ''" p] by simp
  with q have "0 < length (takeWhile (\<lambda>c. c \<noteq> CHR '' '') ?q)"
    by (cases ?q) auto
  moreover have "length (takeWhile (\<lambda>c. c \<noteq> CHR '' '') ?q)
      + length (dropWhile (\<lambda>c. c \<noteq> CHR '' '') ?q) = length ?q"
    by (simp flip: length_append)
  ultimately have "length (dropWhile (\<lambda>c. c \<noteq> CHR '' '') ?q) < length ?q"
    by linarith
  then have "length rest < length ?q"
    unfolding r by simp
  also have "\<dots> \<le> length p"
    by (rule length_dropWhile_le)
  finally show ?thesis .
qed

lemma emit_fields [simp]:
  "config (emit es s) = config s"
  "useAlternateKeyMap (emit es s) = useAlternateKeyMap s"
  "ledState (emit es s) = ledState s"
  "lastKey (emit es s) = lastKey s"
  "readBuffer (emit es s) = readBuffer s"
  "strtok_save (emit es s) = strtok_save s"
  "eeprom (emit es s) = eeprom s"
  "trace (emit es s) = trace s @ es"
  by (simp_all add: emit_def)

lemma KEYCOUNT_eq [simp]: "KEYCOUNT = 8"
  by (simp add: KEYCOUNT_def ROWS_def COLS_def)

lemma setLed_fields [simp]:
  "config (setLed nr v s) = config s"
  "useAlternateKeyMap (setLed nr v s) = useAlternateKeyMap s"
  "lastKey (setLed nr v s) = lastKey s"
  "readBuffer (setLed nr v s) = readBuffer s"
  "strtok_save (setLed nr v s) = strtok_save s"
  "eeprom (setLed nr v s) = eeprom s"
  by (simp_all add: setLed_def)

lemma toggleLed_fields [simp]:
  "config (toggleLed nr s) = config s"
  "useAlternateKeyMap (toggleLed nr s) = useAlternateKeyMap s"
  "lastKey (toggleLed nr s) = lastKey s"
  "readBuffer (toggleLed nr s) = readBuffer s"
  "strtok_save (toggleLed nr s) = strtok_save s"
  "eeprom (toggleLed nr s) = eeprom s"
  by (simp_all add: toggleLed_def)

lemma fold_preserves:
  assumes "\<And>x s. f (g x s) = f s"
  shows "f (fold g xs s) = f s"
  using assms by (induction xs arbitrary: s) simp_all

lemma animationFrame_fields [simp]:
  "config (animationFrame i s) = config s"
  "useAlternateKeyMap (animationFrame i s) = useAlternateKeyMap s"
  "lastKey (animationFrame i s) = lastKey s"
  "readBuffer (animationFrame i s) = readBuffer s"
  "strtok_save (animationFrame i s) = strtok_save s"
  "eeprom (animationFrame i s) = eeprom s"
  by (simp_all add: animationFrame_def Let_def)

lemma startupLedAnimation_fields [simp]:
  "config (startupLedAnimation s) = config s"
  "useAlternateKeyMap (startupLedAnimation s) = useAlternateKeyMap s"
  "lastKey (startupLedAnimation s) = lastKey s"
  "readBuffer (startupLedAnimation s) = readBuffer s"
  "strtok_save (startupLedAnimation s) = strtok_save s"
  "eeprom (startupLedAnimation s) = eeprom s"
  by (simp_all add: startupLedAnimation_def Let_def fold_preserves)

lemma strtok_NULL_fields:
  assumes "strtok_NULL s = (w, s1)"
  shows "config s1 = config s" "useAlternateKeyMap s1 = useAlternateKeyMap s"
    "ledState s1 = ledState s" "lastKey s1 = lastKey s" "readBuffer s1 = readBuffer s"
    "eeprom s1 = eeprom s" "trace s1 = trace s"
    "length (strtok_save s1) \<le> length (strtok_save s)"
  using assms strtok_scan_length [of "strtok_save s"]
  by (auto simp: strtok_NULL_def split: prod.splits)

lemma strtok_NULL_Some_length:
  assumes "strtok_NULL s = (Some w, s1)"
  shows "length (strtok_save s1) < length (strtok_save s)"
  using assms strtok_scan_Some_length [of "strtok_save s" w]
  by (auto simp: strtok_NULL_def split: prod.splits)

lemma parseNumber_fields:
  assumes "parseNumber lo hi s = (nr, s1)"
  shows "config s1 = config s" "useAlternateKeyMap s1 = useAlternateKeyMap s"
    "ledState s1 = ledState s" "lastKey s1 = lastKey s" "readBuffer s1 = readBuffer s"
    "eeprom s1 = eeprom s"
    "length (strtok_save s1) \<le> length (strtok_save s)"
  using assms
  by (auto simp: parseNumber_def Let_def split: prod.splits option.splits if_splits
      dest: strtok_NULL_fields)

lemma handler_strtok_save:
  assumes "h \<in> set handlers" and "handler h s = (r, s1)"
  shows "length (strtok_save s1) \<le> length (strtok_save s)"
  using assms
  unfolding handlers_def
  apply (auto simp: handleHelp_def handleVersion_def handleGetLed_def handleToggle_def handleOn_def
      handleOff_def handleFlash_def handleAnimation_def handleActivateKeyMap_def
      handleConfigToggle_def handleShowSettings_def handleSetKeyCode_def handleSetKeyChar_def
      handlePersist_def handleLoad_def Let_def
      split: prod.splits option.splits if_splits
      dest!: parseNumber_fields(7) strtok_NULL_fields(8))
  done


lemma lookup_handler_Some:
  assumes "lookup_handler word = Some h"
  shows "h \<in> set handlers" and "command h = word \<or> shortcode h = word"
  using assms unfolding lookup_handler_def
  by (auto simp: find_Some_iff)

termination executeSerialCommands_loop
proof (relation "measure (\<lambda>(word, s). length (strtok_save s))")
  show "wf (measure (\<lambda>(word, s). length (strtok_save s)))"
    by simp
next
  fix word :: string and s h r s1 w s2 word'
  assume "lookup_handler word = Some h" and "(r, s1) = handler h s"
    and "\<not> r \<noteq> 0" and "(w, s2) = strtok_NULL s1" and "w = Some word'"
  then have "length (strtok_save s1) \<le> length (strtok_save s)"
    and "length (strtok_save s2) < length (strtok_save s1)"
    using handler_strtok_save [of h s r s1] lookup_handler_Some(1) [of word h]
      strtok_NULL_Some_length [of s1 word' s2]
    by simp_all
  then show "((word', s2), (word, s)) \<in> measure (\<lambda>(word, s). length (strtok_save s))"
    by simp
qed

declare executeSerialCommands_loop.simps [simp del]

section \<open>The LED state invariant\<close>

lemma led_inv_emit [simp]: "led_inv (emit es s) = led_inv s"
  by (simp add: led_inv_def)

lemma led_inv_nth:
  assumes "led_inv s" and "i < 8"
  shows "ledState s ! i = 0 \<or> ledState s ! i = 1"
  using assms by (simp add: led_inv_def list_all_length)

lemma list_all_update:
  "list_all P xs \<Longrightarrow> P v \<Longrightarrow> list_all P (xs[n := v])"
  unfolding list_all_iff using set_update_subset_insert [of xs n v] by auto

lemma led_inv_setLed:
  assumes "led_inv s"
  shows "led_inv (setLed nr onOff s)"
proof (cases "nr < 0 \<or> nr \<ge> int KEYCOUNT \<or> onOff < 0 \<or> onOff > 1")
  case True
  then have "setLed nr onOff s = s"
    unfolding setLed_def by (simp only: if_True)
  with assms show ?thesis by simp
next
  case False
  then have "onOff = 0 \<or> onOff = 1" by linarith
  then have v: "(word_of_int onOff :: byte) = 0 \<or> (word_of_int onOff :: byte) = 1"
    by (rule disjE) simp_all
  from False have eq: "setLed nr onOff s =
      emit [DigitalWrite (ledPin ! nat nr) (if onOff = 1 then LOW else HIGH)]
        (s\<lparr>ledState := (ledState s)[nat nr := word_of_int onOff]\<rparr>)"
    unfolding setLed_def by (simp only: if_False)
  from assms v show ?thesis
    unfolding eq led_inv_emit
    unfolding led_inv_def
    by (simp add: list_all_update)
qed


lemma led_inv_toggleLed:
  "led_inv s \<Longrightarrow> led_inv (toggleLed nr s)"
  unfolding toggleLed_def by (simp only: led_inv_setLed split: if_split) simp

lemma led_inv_executeLedConfig:
  "led_inv s \<Longrightarrow> led_inv (executeLedConfig nr s)"
  unfolding executeLedConfig_def Let_def
  by (simp only: led_inv_setLed led_inv_toggleLed led_inv_emit split: if_split) simp

lemma led_inv_fold:
  assumes "\<And>x s. led_inv s \<Longrightarrow> led_inv (g x s)" and "led_inv s"
  shows "led_inv (fold g xs s)"
  using assms by (induction xs arbitrary: s) simp_all

lemma led_inv_animationFrame:
  "led_inv s \<Longrightarrow> led_inv (animationFrame i s)"
  unfolding animationFrame_def Let_def
  by (simp only: led_inv_setLed led_inv_emit split: if_split) simp

lemma led_inv_startupLedAnimation:
  assumes "led_inv s"
  shows "led_inv (startupLedAnimation s)"
proof -
  define s1 where "s1 = fold animationFrame [0..<length ledAnimation] s"
  define s3 where "s3 =
    setLed (snd (ledAnimation ! (length ledAnimation - 1)) - 1) 0
      (setLed (fst (ledAnimation ! (length ledAnimation - 1)) - 1) 0 s1)"
  have "led_inv s1"
    unfolding s1_def using led_inv_animationFrame assms by (rule led_inv_fold)
  then have "led_inv s3"
    unfolding s3_def by (intro led_inv_setLed)
  then have "led_inv (fold (\<lambda>i. setLed (int i) (uint (ledState s ! i))) [0..<KEYCOUNT] s3)"
    using led_inv_setLed by (intro led_inv_fold)
  then show ?thesis
    unfolding startupLedAnimation_def Let_def s3_def s1_def .
qed


lemma led_inv_cong:
  "ledState s1 = ledState s \<Longrightarrow> led_inv s1 = led_inv s"
  by (simp add: led_inv_def)

lemma led_inv_parseNumber:
  "parseNumber lo hi s = (nr, s1) \<Longrightarrow> led_inv s1 = led_inv s"
  by (rule led_inv_cong) (rule parseNumber_fields)

lemma led_inv_strtok_NULL:
  "strtok_NULL s = (w, s1) \<Longrightarrow> led_inv s1 = led_inv s"
  by (rule led_inv_cong) (rule strtok_NULL_fields)

lemma led_inv_updates [simp]:
  "led_inv (s\<lparr>config := c\<rparr>) = led_inv s"
  "led_inv (s\<lparr>useAlternateKeyMap := u\<rparr>) = led_inv s"
  "led_inv (s\<lparr>eeprom := e\<rparr>) = led_inv s"
  "led_inv (s\<lparr>readBuffer := b\<rparr>) = led_inv s"
  "led_inv (s\<lparr>strtok_save := p\<rparr>) = led_inv s"
  "led_inv (s\<lparr>lastKey := k\<rparr>) = led_inv s"
  by (simp_all add: led_inv_def)

lemma led_inv_handler:
  assumes "h \<in> set handlers" and "handler h s = (r, s1)" and "led_inv s"
  shows "led_inv s1"
  using assms
  unfolding handlers_def
  by (auto simp: handleHelp_def handleVersion_def handleGetLed_def handleToggle_def handleOn_def
      handleOff_def handleFlash_def handleAnimation_def handleActivateKeyMap_def
      handleConfigToggle_def handleShowSettings_def handleSetKeyCode_def handleSetKeyChar_def
      handlePersist_def handleLoad_def Let_def led_inv_setLed led_inv_toggleLed
      led_inv_startupLedAnimation led_inv_parseNumber led_inv_strtok_NULL
      split: prod.splits option.splits if_splits)


lemma led_inv_executeSerialCommands_loop:
  "led_inv s \<Longrightarrow> led_inv (executeSerialCommands_loop word s)"
proof (induction word s rule: executeSerialCommands_loop.induct)
  case (1 word s)
  show ?case
  proof (cases "lookup_handler word")
    case None
    with 1 show ?thesis
      by (simp add: executeSerialCommands_loop.simps)
  next
    case (Some h)
    obtain r s1 where h: "handler h s = (r, s1)"
      by (cases "handler h s")
    have s1: "led_inv s1"
      using led_inv_handler [OF lookup_handler_Some(1) [OF Some] h] "1.prems" .
    obtain w s2 where t: "strtok_NULL s1 = (w, s2)"
      by (cases "strtok_NULL s1")
    have s2: "led_inv s2"
      using led_inv_strtok_NULL [OF t] s1 by simp
    show ?thesis
    proof (cases "r \<noteq> 0")
      case True
      with Some h s1 show ?thesis
        by (simp add: executeSerialCommands_loop.simps)
    next
      case False
      show ?thesis
      proof (cases w)
        case None
        with Some h t s2 False show ?thesis
          by (simp add: executeSerialCommands_loop.simps)
      next
        case (Some word')
        have "led_inv (executeSerialCommands_loop word' s2)"
          using "1.IH" [OF \<open>lookup_handler word = Some h\<close> h [symmetric] _ t [symmetric] Some] False s2
          by simp
        with \<open>lookup_handler word = Some h\<close> h t False Some show ?thesis
          by (simp add: executeSerialCommands_loop.simps)
      qed
    qed
  qed
qed

lemma led_inv_executeSerialCommands:
  assumes "led_inv s"
  shows "led_inv (executeSerialCommands s)"
proof -
  obtain w s1 where t: "strtok_readBuffer s = (w, s1)"
    by (cases "strtok_readBuffer s")
  then have "led_inv s1"
    using assms by (auto simp: strtok_readBuffer_def split: prod.splits)
  with t show ?thesis
    unfolding executeSerialCommands_def
    by (cases w) (simp_all add: led_inv_executeSerialCommands_loop)
qed

lemma led_inv_handleSerialReceive_step:
  assumes "led_inv s" and "handleSerialReceive_step ser s = Inr s1"
  shows "led_inv s1"
  using assms led_inv_executeSerialCommands [of s]
  unfolding handleSerialReceive_step_def clearReadBuffer_def
  by (auto split: if_splits)

lemma led_inv_handleSerialReceive:
  "led_inv s \<Longrightarrow> handleSerialReceive avail s = Inr s1 \<Longrightarrow> led_inv s1"
proof (induction avail arbitrary: s)
  case Nil
  then show ?case by simp
next
  case (Cons ser avail)
  then obtain s' where "handleSerialReceive_step ser s = Inr s'"
    and "handleSerialReceive avail s' = Inr s1"
    by (auto split: sum.splits)
  with Cons show ?case
    using led_inv_handleSerialReceive_step by blast
qed

lemma led_inv_power_on: "led_inv (power_on e)"
  by (simp add: led_inv_def power_on_def list_all_iff)

lemma led_inv_setup_sketch:
  assumes "led_inv s"
  shows "led_inv (setup_sketch s)"
proof -
  define s3 where "s3 = clearReadBuffer (snd (handleLoad (emit [SerialBegin 115200] s)))"
  have "led_inv s3"
    using assms unfolding s3_def clearReadBuffer_def handleLoad_def Let_def
    by simp
  then have "led_inv (fold (\<lambda>i st. setLed (int i) 0 (emit [PinModeOutput (ledPin ! i)] st))
      [0..<KEYCOUNT] s3)"
    by (rule led_inv_fold [rotated]) (simp add: led_inv_setLed)
  then show ?thesis
    unfolding setup_sketch_def Let_def s3_def
    by (intro led_inv_startupLedAnimation) simp
qed

lemma led_inv_loop:
  assumes "led_inv s" and "loop avail key s = Inr s1"
  shows "led_inv s1"
proof -
  from assms(2) obtain s' where r: "handleSerialReceive avail s = Inr s'"
    unfolding loop_def by (auto split: sum.splits)
  then have "led_inv s'"
    using assms(1) led_inv_handleSerialReceive by blast
  with assms(2) r show ?thesis
    unfolding loop_def Let_def
    by (auto simp: led_inv_executeLedConfig split: if_splits)
qed

section \<open>Properties of the LED operations\<close>

lemma setLed_valid:
  assumes "0 \<le> nr" and "nr < 8" and "v = 0 \<or> v = 1"
  shows "setLed nr v s =
    emit [DigitalWrite (ledPin ! nat nr) (if v = 1 then LOW else HIGH)]
      (s\<lparr>ledState := (ledState s)[nat nr := word_of_int v]\<rparr>)"
  using assms unfolding setLed_def by auto

text \<open>
  C7.  For every key number \<open>k\<close> from 1 to 8 and every LED state (each entry 0 or 1),
  toggling LED \<open>k\<close> twice gives back the LED state it started from, for key \<open>k\<close> and for
  every other key; nothing else of the machine state changes, and the only effects are the
  two pin writes, first to the opposite level and then back.
\<close>

theorem toggle_twice_restores:
  assumes "led_inv s" and "1 \<le> k" and "k \<le> 8"
  shows "ledState (toggleLed (k - 1) (toggleLed (k - 1) s)) = ledState s \<and>
         toggleLed (k - 1) (toggleLed (k - 1) s) =
           emit [DigitalWrite (ledPin ! nat (k - 1))
                   (if ledState s ! nat (k - 1) = 0 then LOW else HIGH),
                 DigitalWrite (ledPin ! nat (k - 1))
                   (if ledState s ! nat (k - 1) = 0 then HIGH else LOW)] s"
proof -
  let ?n = "nat (k - 1)"
  from assms have n: "?n < 8" and r: "0 \<le> k - 1" "k - 1 < 8" "\<not> (k - 1 < 0 \<or> int KEYCOUNT \<le> k - 1)"
    by simp_all
  from assms(1) have len: "length (ledState s) = 8"
    by (simp add: led_inv_def)
  from led_inv_nth [OF assms(1) n] have "ledState s ! ?n = 0 \<or> ledState s ! ?n = 1" .
  then have full: "toggleLed (k - 1) (toggleLed (k - 1) s) =
           emit [DigitalWrite (ledPin ! ?n) (if ledState s ! ?n = 0 then LOW else HIGH),
                 DigitalWrite (ledPin ! ?n) (if ledState s ! ?n = 0 then HIGH else LOW)] s"
  proof
    assume z: "ledState s ! ?n = 0"
    have 1: "toggleLed (k - 1) s =
        emit [DigitalWrite (ledPin ! ?n) LOW] (s\<lparr>ledState := (ledState s)[?n := 1]\<rparr>)"
      using z r setLed_valid [of "k - 1" 1 s] unfolding toggleLed_def by simp
    have "(ledState s)[?n := 1, ?n := 0] = ledState s"
      using z by (simp add: list_update_same_conv len n)
    then show ?thesis
      unfolding 1 using z r n len
        setLed_valid [of "k - 1" 0 "emit [DigitalWrite (ledPin ! ?n) LOW] (s\<lparr>ledState := (ledState s)[?n := 1]\<rparr>)"]
      unfolding toggleLed_def by (simp add: emit_def)
  next
    assume o: "ledState s ! ?n = 1"
    have 1: "toggleLed (k - 1) s =
        emit [DigitalWrite (ledPin ! ?n) HIGH] (s\<lparr>ledState := (ledState s)[?n := 0]\<rparr>)"
      using o r setLed_valid [of "k - 1" 0 s] unfolding toggleLed_def by simp
    have "(ledState s)[?n := 0, ?n := 1] = ledState s"
      using o by (simp add: list_update_same_conv len n)
    then show ?thesis
      unfolding 1 using o r n len
        setLed_valid [of "k - 1" 1 "emit [DigitalWrite (ledPin ! ?n) HIGH] (s\<lparr>ledState := (ledState s)[?n := 0]\<rparr>)"]
      unfolding toggleLed_def by (simp add: emit_def)
  qed
  then show ?thesis by simp
qed


theorem toggle_twice_restores_witness:
  "led_inv (power_on (\<lambda>a. 255)) \<and> (1 :: int) \<le> 3 \<and> (3 :: int) \<le> 8 \<and>
   ledState (toggleLed (3 - 1) (toggleLed (3 - 1) (power_on (\<lambda>a. 255))))
     = [0, 0, 0, 0, 0, 0, 0, 0]"
proof -
  have h: "led_inv (power_on (\<lambda>a. 255))"
    by (rule led_inv_power_on)
  have "ledState (power_on (\<lambda>a. 255)) = [0, 0, 0, 0, 0, 0, 0, 0]"
    by (simp add: power_on_def numeral_eq_Suc)
  with h toggle_twice_restores [OF h, of 3] show ?thesis
    by simp
qed

text \<open>
  C9.  Every entry of \<open>ledState\<close> is always 0 or 1.  The state after power-on satisfies
  the invariant; \<open>setLed\<close> changes nothing when the index is outside 0..7 or the value is
  not 0 or 1; and \<open>setLed\<close>, \<open>toggleLed\<close>, the configured key behaviour, the animation,
  a whole command line, the serial input loop, \<open>setup\<close> and \<open>loop\<close> all keep the invariant.
\<close>

theorem ledState_entries_0_or_1:
  assumes "led_inv s"
  shows "led_inv (power_on e) \<and>
         ((nr < 0 \<or> int KEYCOUNT \<le> nr \<or> onOff < 0 \<or> 1 < onOff) \<longrightarrow> setLed nr onOff s = s) \<and>
         led_inv (setLed nr onOff s) \<and>
         led_inv (toggleLed nr s) \<and>
         led_inv (executeLedConfig nr s) \<and>
         led_inv (startupLedAnimation s) \<and>
         led_inv (executeSerialCommands s) \<and>
         (handleSerialReceive avail s = Inr s1 \<longrightarrow> led_inv s1) \<and>
         led_inv (setup_sketch s) \<and>
         (loop avail key s = Inr s2 \<longrightarrow> led_inv s2)"
proof -
  have "(nr < 0 \<or> int KEYCOUNT \<le> nr \<or> onOff < 0 \<or> 1 < onOff) \<longrightarrow> setLed nr onOff s = s"
    unfolding setLed_def by simp
  moreover note led_inv_power_on [of e] led_inv_setLed [OF assms, of nr onOff]
    led_inv_toggleLed [OF assms, of nr] led_inv_executeLedConfig [OF assms, of nr]
    led_inv_startupLedAnimation [OF assms] led_inv_executeSerialCommands [OF assms]
    led_inv_setup_sketch [OF assms]
  moreover have "handleSerialReceive avail s = Inr s1 \<longrightarrow> led_inv s1"
    using led_inv_handleSerialReceive [OF assms] by blast
  moreover have "loop avail key s = Inr s2 \<longrightarrow> led_inv s2"
    using led_inv_loop [OF assms] by blast
  ultimately show ?thesis
    by (intro conjI)
qed

theorem ledState_entries_0_or_1_witness:
  "led_inv (power_on (\<lambda>a. 255)) \<and>
   setLed 2 5 (power_on (\<lambda>a. 255)) = power_on (\<lambda>a. 255) \<and>
   setLed 8 1 (power_on (\<lambda>a. 255)) = power_on (\<lambda>a. 255) \<and>
   led_inv (setLed 2 1 (power_on (\<lambda>a. 255))) \<and>
   led_inv (toggleLed 2 (power_on (\<lambda>a. 255))) \<and>
   led_inv (startupLedAnimation (power_on (\<lambda>a. 255))) \<and>
   led_inv (setup_sketch (power_on (\<lambda>a. 255)))"
proof -
  have h: "led_inv (power_on (\<lambda>a. 255))"
    by (rule led_inv_power_on)
  show ?thesis
    using h ledState_entries_0_or_1 [OF h, where nr = 2 and onOff = 5]
      ledState_entries_0_or_1 [OF h, where nr = 8 and onOff = 1]
      ledState_entries_0_or_1 [OF h, where nr = 2 and onOff = 1]
    by simp
qed

section \<open>Persistence\<close>

lemma EEPROM_put_below:
  "a' < a \<Longrightarrow> EEPROM_put a bs e a' = e a'"
  by (induction a bs e rule: EEPROM_put.induct) simp_all

lemma EEPROM_get_put:
  "EEPROM_get a (length bs) (EEPROM_put a bs e) = bs"
proof (induction bs arbitrary: a e)
  case Nil
  show ?case by simp
next
  case (Cons b bs)
  have "EEPROM_put (Suc a) bs (e(a := b)) a = b"
    by (simp add: EEPROM_put_below)
  with Cons show ?case by simp
qed

lemma char_byte_char:
  "char_of (unat (of_nat (of_char ch) :: byte)) = ch"
proof -
  have "unat (of_nat (of_char ch) :: byte) = of_char ch mod 256"
    by (simp add: unat_of_nat)
  then show ?thesis by simp
qed

lemma ConfigData_of_bytes_bytes:
  assumes "wf_config c"
  shows "ConfigData_of_bytes (ConfigData_bytes c) = c"
proof -
  have "map (\<lambda>b. char_of (unat b)) (map (\<lambda>ch. of_nat (of_char ch) :: byte) xs) = xs" for xs
    by (induction xs) (simp_all add: char_byte_char)
  with assms show ?thesis
    unfolding ConfigData_of_bytes_def ConfigData_bytes_def wf_config_def Let_def
    by simp
qed

lemma length_ConfigData_bytes:
  "wf_config c \<Longrightarrow> length (ConfigData_bytes c) = sizeof_ConfigData"
  by (simp add: ConfigData_bytes_def wf_config_def sizeof_ConfigData_def)

lemma int_of_bytes_int_bytes:
  "int_of_bytes (int_bytes 2306) = 2306"
  by (simp add: int_of_bytes_def int_bytes_def)

lemma handleLoad_handlePersist:
  assumes "wf_config (config s)"
  shows "handleLoad (snd (handlePersist s)) =
     (0, emit [println ''Config persisted.'', println ''Config loaded.'']
           (s\<lparr>eeprom := EEPROM_put sizeof_int (ConfigData_bytes (config s))
                            (EEPROM_put 0 (int_bytes 2306) (eeprom s))\<rparr>))"
proof -
  let ?e1 = "EEPROM_put 0 (int_bytes 2306) (eeprom s)"
  let ?e2 = "EEPROM_put sizeof_int (ConfigData_bytes (config s)) ?e1"
  have "?e2 0 = ?e1 0" and "?e2 1 = ?e1 1"
    by (simp_all add: EEPROM_put_below sizeof_int_def)
  moreover have "?e1 0 = 2" and "?e1 1 = 9"
    by (simp_all add: int_bytes_def)
  ultimately have "EEPROM_get 0 sizeof_int ?e2 = [2, 9]"
    by (simp add: sizeof_int_def numeral_2_eq_2)
  then have v: "int_of_bytes (EEPROM_get 0 sizeof_int ?e2) = 2306"
    by (simp add: int_of_bytes_def)
  have "EEPROM_get sizeof_int sizeof_ConfigData ?e2 = ConfigData_bytes (config s)"
    using EEPROM_get_put [of sizeof_int "ConfigData_bytes (config s)" ?e1]
      length_ConfigData_bytes [OF assms] by simp
  then have c: "ConfigData_of_bytes (EEPROM_get sizeof_int sizeof_ConfigData ?e2) = config s"
    using ConfigData_of_bytes_bytes [OF assms] by simp
  show ?thesis
    unfolding handlePersist_def handleLoad_def Let_def
    using v c by (simp add: emit_def)
qed

text \<open>
  C2.  For every in-memory configuration (four arrays of 8 characters, any values),
  \<open>persist\<close> followed at once by \<open>load\<close> leaves the configuration exactly as it was: both
  handlers report success, and all four maps are unchanged.
\<close>

theorem persist_then_load_identity:
  assumes "wf_config (config s)"
  shows "config (snd (handleLoad (snd (handlePersist s)))) = config s \<and>
         fst (handlePersist s) = 0 \<and> fst (handleLoad (snd (handlePersist s))) = 0"
  using handleLoad_handlePersist [OF assms]
  by (simp add: handlePersist_def Let_def)

theorem persist_then_load_identity_witness:
  "wf_config (config (power_on (\<lambda>a. 255))) \<and>
   config (snd (handleLoad (snd (handlePersist (power_on (\<lambda>a. 255)))))) = default_config"
proof -
  have h: "wf_config (config (power_on (\<lambda>a. 255)))"
    by (simp add: wf_config_def power_on_def default_config_def)
  have "config (power_on (\<lambda>a. 255)) = default_config"
    by (simp add: power_on_def)
  with h persist_then_load_identity [OF h] show ?thesis
    by simp
qed

text \<open>
  C3.  \<open>load\<close> reads the version tag at address 0.  If the tag is 2306, the in-memory
  configuration becomes the stored payload (the 32 bytes behind the tag) and the load is
  announced; if it is anything else, the machine state, configuration included, is left as
  it was and nothing is printed.  The handler returns 0 either way.  After power-on with a
  tag that does not match, \<open>setup\<close> ends with the compiled-in defaults.
\<close>

theorem load_only_on_matching_version:
  "fst (handleLoad s) = 0 \<and>
   (int_of_bytes (EEPROM_get 0 sizeof_int (eeprom s)) = 2306 \<longrightarrow>
      handleLoad s =
        (0, emit [println ''Config loaded.'']
              (s\<lparr>config := ConfigData_of_bytes
                               (EEPROM_get sizeof_int sizeof_ConfigData (eeprom s))\<rparr>))) \<and>
   (int_of_bytes (EEPROM_get 0 sizeof_int (eeprom s)) \<noteq> 2306 \<longrightarrow>
      handleLoad s = (0, s)) \<and>
   (int_of_bytes (EEPROM_get 0 sizeof_int e) \<noteq> 2306 \<longrightarrow>
      config (setup_sketch (power_on e)) = default_config)"
proof -
  have "config (setup_sketch (power_on e)) = default_config"
    if "int_of_bytes (EEPROM_get 0 sizeof_int e) \<noteq> 2306"
  proof -
    have "handleLoad (emit [SerialBegin 115200] (power_on e)) =
        (0, emit [SerialBegin 115200] (power_on e))"
      using that unfolding handleLoad_def Let_def by (simp add: power_on_def)
    then show ?thesis
      unfolding setup_sketch_def Let_def
      by (simp add: fold_preserves clearReadBuffer_def power_on_def)
  qed
  then show ?thesis
    unfolding handleLoad_def Let_def by simp
qed


lemma EEPROM_get_map: "EEPROM_get a n e = map e [a..<a + n]"
  by (induction n arbitrary: a) (simp_all add: upt_rec)

theorem load_only_on_matching_version_witness:
  "handleLoad (power_on (\<lambda>a. 255)) = (0, power_on (\<lambda>a. 255)) \<and>
   config (setup_sketch (power_on (\<lambda>a. 255))) = default_config \<and>
   keyMap1 (config (snd (handleLoad (power_on ((\<lambda>a. 255)(0 := 2, Suc 0 := 9))))))
     = [CHR 0xFF, CHR 0xFF, CHR 0xFF, CHR 0xFF, CHR 0xFF, CHR 0xFF, CHR 0xFF, CHR 0xFF]"
proof -
  have blank: "int_of_bytes (EEPROM_get 0 sizeof_int (\<lambda>a. 255)) \<noteq> 2306"
    by (simp add: int_of_bytes_def sizeof_int_def EEPROM_get_map)
  have tagged: "int_of_bytes (EEPROM_get 0 sizeof_int ((\<lambda>a. 255)(0 := 2, Suc 0 := 9))) = 2306"
    by (simp add: int_of_bytes_def sizeof_int_def EEPROM_get_map)
  have "char_of (255 :: nat) = CHR 0xFF"
    by code_simp
  then have payload: "keyMap1 (ConfigData_of_bytes
      (EEPROM_get sizeof_int sizeof_ConfigData ((\<lambda>a. 255)(0 := 2, Suc 0 := 9))))
      = [CHR 0xFF, CHR 0xFF, CHR 0xFF, CHR 0xFF, CHR 0xFF, CHR 0xFF, CHR 0xFF, CHR 0xFF]"
    by (simp add: ConfigData_of_bytes_def sizeof_int_def sizeof_ConfigData_def
        EEPROM_get_map take_map)
  have e: "eeprom (power_on x) = x" for x
    by (simp add: power_on_def)
  from load_only_on_matching_version [of "power_on (\<lambda>a. 255)" "\<lambda>a. 255"] blank
  have 1: "handleLoad (power_on (\<lambda>a. 255)) = (0, power_on (\<lambda>a. 255))"
    and 2: "config (setup_sketch (power_on (\<lambda>a. 255))) = default_config"
    unfolding e by blast+
  from load_only_on_matching_version [of "power_on ((\<lambda>a. 255)(0 := 2, Suc 0 := 9))" "\<lambda>a. 255"]
    tagged
  have "handleLoad (power_on ((\<lambda>a. 255)(0 := 2, Suc 0 := 9))) =
      (0, emit [println ''Config loaded.'']
            ((power_on ((\<lambda>a. 255)(0 := 2, Suc 0 := 9)))
               \<lparr>config := ConfigData_of_bytes
                   (EEPROM_get sizeof_int sizeof_ConfigData ((\<lambda>a. 255)(0 := 2, Suc 0 := 9)))\<rparr>))"
    unfolding e by blast
  then have 3: "keyMap1 (config (snd (handleLoad (power_on ((\<lambda>a. 255)(0 := 2, Suc 0 := 9))))))
     = [CHR 0xFF, CHR 0xFF, CHR 0xFF, CHR 0xFF, CHR 0xFF, CHR 0xFF, CHR 0xFF, CHR 0xFF]"
    by (simp add: payload)
  from 1 2 3 show ?thesis
    by (intro conjI)
qed

section \<open>Properties of the serial input assembler\<close>

lemma strlen_Nil [simp]: "strlen [] = 0"
  by (simp add: strlen_def)

lemma strlen_no_NUL:
  "NUL \<notin> set buf \<Longrightarrow> strlen buf = length buf"
  unfolding strlen_def by (induction buf) auto

lemma readBuffer_clearReadBuffer [simp]: "readBuffer (clearReadBuffer s) = []"
  by (simp add: clearReadBuffer_def)

text \<open>
  C10.  A carriage return or line feed that arrives while the buffer holds an empty string
  changes nothing: no command runs and nothing is printed, the machine state (effect trace
  included) is the one before.  So the line feed of a CR-LF pair is ignored whatever the
  carriage return did.
\<close>

theorem empty_line_is_ignored:
  assumes "strlen (readBuffer s) = 0" and "ser = CR \<or> ser = LF"
  shows "handleSerialReceive_step ser s = Inr s \<and>
         handleSerialReceive [ser] s = Inr s \<and>
         handleSerialReceive [CR, LF] s' = handleSerialReceive [CR] s'"
proof -
  have step: "handleSerialReceive_step c t = Inr t"
    if "strlen (readBuffer t) = 0" and "c = CR \<or> c = LF" for c t
    using that unfolding handleSerialReceive_step_def by auto
  have "handleSerialReceive [CR, LF] s' = handleSerialReceive [CR] s'"
  proof (cases "strlen (readBuffer s') > 0")
    case True
    then have "handleSerialReceive_step CR s' = Inr (clearReadBuffer (executeSerialCommands s'))"
      unfolding handleSerialReceive_step_def by simp
    moreover have "handleSerialReceive_step LF (clearReadBuffer (executeSerialCommands s'))
        = Inr (clearReadBuffer (executeSerialCommands s'))"
      by (rule step) simp_all
    ultimately show ?thesis by simp
  next
    case False
    then have "handleSerialReceive_step CR s' = Inr s'" and "handleSerialReceive_step LF s' = Inr s'"
      by (simp_all add: step)
    then show ?thesis by simp
  qed
  with step [OF assms] show ?thesis by simp
qed

theorem empty_line_is_ignored_witness:
  "strlen (readBuffer (power_on (\<lambda>a. 255))) = 0 \<and>
   handleSerialReceive [LF] (power_on (\<lambda>a. 255)) = Inr (power_on (\<lambda>a. 255)) \<and>
   handleSerialReceive [CR] (power_on (\<lambda>a. 255)) = Inr (power_on (\<lambda>a. 255))"
proof -
  have h: "strlen (readBuffer (power_on (\<lambda>a. 255))) = 0"
    by (simp add: power_on_def)
  from h empty_line_is_ignored [OF h, of LF] empty_line_is_ignored [OF h, of CR]
  show ?thesis by simp
qed

subsection \<open>Lines without NUL bytes\<close>

text \<open>
  As long as no NUL byte arrives, the buffer holds the first 79 characters of the line and
  drops the rest, and the terminator runs the truncated line.
\<close>

lemma handleSerialReceive_plain:
  assumes "\<forall>c \<in> set cs. c \<noteq> NUL \<and> c \<noteq> CR \<and> c \<noteq> LF"
    and "NUL \<notin> set (readBuffer s)" and "length (readBuffer s) \<le> 79"
  shows "handleSerialReceive cs s = Inr (s\<lparr>readBuffer := take 79 (readBuffer s @ cs)\<rparr>)"
  using assms
proof (induction cs arbitrary: s)
  case Nil
  then show ?case by simp
next
  case (Cons c cs)
  from Cons.prems have c: "c \<noteq> NUL" "c \<noteq> CR" "c \<noteq> LF"
    and cs: "\<forall>c \<in> set cs. c \<noteq> NUL \<and> c \<noteq> CR \<and> c \<noteq> LF"
    by simp_all
  have len: "strlen (readBuffer s) = length (readBuffer s)"
    using Cons.prems(2) by (rule strlen_no_NUL)
  show ?case
  proof (cases "length (readBuffer s) < 79")
    case True
    then have "handleSerialReceive_step c s = Inr (s\<lparr>readBuffer := readBuffer s @ [c]\<rparr>)"
      unfolding handleSerialReceive_step_def using c len
      by (simp add: sizeof_readBuffer_def)
    moreover have "handleSerialReceive cs (s\<lparr>readBuffer := readBuffer s @ [c]\<rparr>) =
        Inr (s\<lparr>readBuffer := readBuffer s @ [c]\<rparr>
               \<lparr>readBuffer := take 79 (readBuffer (s\<lparr>readBuffer := readBuffer s @ [c]\<rparr>) @ cs)\<rparr>)"
      using cs c Cons.prems(2) True by (intro Cons.IH) simp_all
    ultimately show ?thesis by simp
  next
    case False
    with Cons.prems(3) have full: "length (readBuffer s) = 79" by simp
    then have "handleSerialReceive_step c s = Inr s"
      unfolding handleSerialReceive_step_def using c len
      by (simp add: sizeof_readBuffer_def)
    moreover have "handleSerialReceive cs s = Inr (s\<lparr>readBuffer := take 79 (readBuffer s @ cs)\<rparr>)"
      using cs Cons.prems(2,3) by (intro Cons.IH)
    ultimately show ?thesis using full by simp
  qed
qed

lemma handleSerialReceive_append:
  "handleSerialReceive (xs @ ys) s =
     (case handleSerialReceive xs s of Inl f \<Rightarrow> Inl f | Inr s1 \<Rightarrow> handleSerialReceive ys s1)"
  by (induction xs arbitrary: s) (simp_all split: sum.splits)

lemma handleSerialReceive_truncated_line:
  assumes "\<forall>c \<in> set cs. c \<noteq> NUL \<and> c \<noteq> CR \<and> c \<noteq> LF" and "cs \<noteq> []"
    and "t = CR \<or> t = LF"
  shows "handleSerialReceive (cs @ [t]) (clearReadBuffer s) =
     Inr (clearReadBuffer (executeSerialCommands (s\<lparr>readBuffer := take 79 cs\<rparr>)))"
proof -
  have 1: "handleSerialReceive cs (clearReadBuffer s) = Inr (s\<lparr>readBuffer := take 79 cs\<rparr>)"
    using handleSerialReceive_plain [OF assms(1), of "clearReadBuffer s"]
    by (simp add: clearReadBuffer_def)
  have "NUL \<notin> set (take 79 cs)"
    using assms(1) by (auto dest: in_set_takeD)
  then have "strlen (take 79 cs) = length (take 79 cs)"
    by (rule strlen_no_NUL)
  with assms(2) have "strlen (take 79 cs) > 0"
    by (cases cs) simp_all
  then have "handleSerialReceive_step t (s\<lparr>readBuffer := take 79 cs\<rparr>) =
      Inr (clearReadBuffer (executeSerialCommands (s\<lparr>readBuffer := take 79 cs\<rparr>)))"
    unfolding handleSerialReceive_step_def using assms(3) by auto
  with 1 show ?thesis
    by (simp add: handleSerialReceive_append)
qed

subsection \<open>Lines with NUL bytes\<close>

lemma handleSerialReceive_NULs:
  assumes "m + n \<le> 79"
  shows "handleSerialReceive (replicate n NUL) (s\<lparr>readBuffer := replicate m NUL\<rparr>) =
     Inr (s\<lparr>readBuffer := replicate (m + n) NUL\<rparr>)"
  using assms
proof (induction n arbitrary: m)
  case 0
  show ?case by simp
next
  case (Suc n)
  have "strlen (replicate m NUL) = 0"
    by (cases m) (simp_all add: strlen_def)
  then have "handleSerialReceive_step NUL (s\<lparr>readBuffer := replicate m NUL\<rparr>) =
      Inr (s\<lparr>readBuffer := replicate (Suc m) NUL\<rparr>)"
    unfolding handleSerialReceive_step_def using Suc.prems
    by (simp add: sizeof_readBuffer_def replicate_append_same)
  moreover have "handleSerialReceive (replicate n NUL) (s\<lparr>readBuffer := replicate (Suc m) NUL\<rparr>) =
      Inr (s\<lparr>readBuffer := replicate (Suc m + n) NUL\<rparr>)"
    using Suc.prems by (intro Suc.IH) simp
  ultimately show ?case by simp
qed

text \<open>
  C8.  The bound on the stored line is checked against \<open>strlen(readBuffer)\<close>, not against
  the write pointer.  A NUL byte advances the pointer and leaves \<open>strlen\<close> where it was, so
  the check never stops the writes: the 80th of 80 NUL bytes is stored at index 79 and its
  terminator at index 80, outside the 80-byte array.  A line that starts with a NUL byte is
  never executed either: its terminator finds the empty string and leaves the bytes in the
  buffer.
\<close>

theorem NUL_bytes_overflow_readBuffer:
  "handleSerialReceive (replicate 80 NUL) (clearReadBuffer s) = Inl BufferOverflow \<and>
   handleSerialReceive (NUL # ''on 1'' @ [CR]) (clearReadBuffer s)
     = Inr (s\<lparr>readBuffer := NUL # ''on 1''\<rparr>)"
proof -
  have "replicate (Suc 79) NUL = replicate 79 NUL @ [NUL]"
    by (simp only: replicate_Suc replicate_append_same)
  then have "replicate 80 NUL = replicate 79 NUL @ [NUL]"
    by simp
  moreover have "handleSerialReceive (replicate 79 NUL) (clearReadBuffer s) =
      Inr (s\<lparr>readBuffer := replicate 79 NUL\<rparr>)"
    using handleSerialReceive_NULs [of 0 79 s] by (simp add: clearReadBuffer_def)
  moreover have "strlen (replicate 79 NUL) = 0"
    by (simp add: strlen_def numeral_eq_Suc)
  then have "handleSerialReceive_step NUL (s\<lparr>readBuffer := replicate 79 NUL\<rparr>) = Inl BufferOverflow"
    unfolding handleSerialReceive_step_def by (simp add: sizeof_readBuffer_def)
  ultimately have 1: "handleSerialReceive (replicate 80 NUL) (clearReadBuffer s) = Inl BufferOverflow"
    by (simp add: handleSerialReceive_append)
  have 2: "handleSerialReceive (NUL # ''on 1'' @ [CR]) (clearReadBuffer s)
     = Inr (s\<lparr>readBuffer := NUL # ''on 1''\<rparr>)"
    by (simp add: handleSerialReceive_step_def clearReadBuffer_def strlen_def sizeof_readBuffer_def)
  from 1 2 show ?thesis ..
qed

section \<open>The start-up animation\<close>

lemma setLed_restore:
  assumes "a = 0 \<or> a = 1" and "0 \<le> nr" and "nr < 8"
  shows "setLed nr (uint a) s =
    emit [DigitalWrite (ledPin ! nat nr) (if a = 1 then LOW else HIGH)]
      (s\<lparr>ledState := (ledState s)[nat nr := a]\<rparr>)"
  using assms unfolding setLed_def by auto

lemma animation_frames:
  assumes "ledState s = [a0, a1, a2, a3, a4, a5, a6, a7]"
  shows "setLed (snd (ledAnimation ! (length ledAnimation - 1)) - 1) 0
           (setLed (fst (ledAnimation ! (length ledAnimation - 1)) - 1) 0
              (fold animationFrame [0..<length ledAnimation] s)) =
         emit (frames_spec None ledAnimation) (s\<lparr>ledState := [0, 0, 0, 0, 0, 0, 0, 0]\<rparr>)"
  using assms
  by (simp add: ledAnimation_def animationFrame_def setLed_def emit_def led_on_def led_off_def
      ledPin_def Let_def)


lemma upt_0_8: "[0..<8] = [0, 1, 2, 3, 4, 5, 6, 7]"
  by code_simp

lemma animation_restore:
  assumes "ledState s = [0, 0, 0, 0, 0, 0, 0, 0]"
    and "list_all (\<lambda>b. b = 0 \<or> b = 1) [a0, a1, a2, a3, a4, a5, a6, a7]"
  shows "fold (\<lambda>i. setLed (int i) (uint ([a0, a1, a2, a3, a4, a5, a6, a7] ! i))) [0..<KEYCOUNT] s =
         emit (restore_spec [a0, a1, a2, a3, a4, a5, a6, a7])
           (s\<lparr>ledState := [a0, a1, a2, a3, a4, a5, a6, a7]\<rparr>)"
  using assms
  by (simp add: setLed_restore restore_spec_def emit_def ledPin_def upt_0_8)

lemma length_8_list:
  assumes "length xs = 8"
  obtains a0 a1 a2 a3 a4 a5 a6 a7 where "xs = [a0, a1, a2, a3, a4, a5, a6, a7]"
  using assms by (auto simp: eval_nat_numeral length_Suc_conv)

text \<open>
  C6.  \<open>startupLedAnimation\<close> plays the 9 frames of \<open>ledAnimation\<close> in order, each frame
  lighting its pair and putting out the pair before it, puts out the last pair, and then
  drives every LED to its state in the snapshot taken at entry.  The machine state after the
  animation is the state before it with exactly these effects added: \<open>ledState\<close> is unchanged.
\<close>

theorem startupLedAnimation_plays_frames_and_restores:
  assumes "led_inv s"
  shows "length ledAnimation = 9 \<and>
         startupLedAnimation s = emit (animation_spec (ledState s)) s \<and>
         ledState (startupLedAnimation s) = ledState s"
proof -
  from assms have "length (ledState s) = 8" and all: "list_all (\<lambda>b. b = 0 \<or> b = 1) (ledState s)"
    by (simp_all add: led_inv_def)
  then obtain a0 a1 a2 a3 a4 a5 a6 a7 where xs: "ledState s = [a0, a1, a2, a3, a4, a5, a6, a7]"
    by (elim length_8_list)
  let ?s3 = "emit (frames_spec None ledAnimation) (s\<lparr>ledState := [0, 0, 0, 0, 0, 0, 0, 0]\<rparr>)"
  have "startupLedAnimation s =
      fold (\<lambda>i. setLed (int i) (uint ([a0, a1, a2, a3, a4, a5, a6, a7] ! i))) [0..<KEYCOUNT] ?s3"
    unfolding startupLedAnimation_def Let_def animation_frames [OF xs] xs ..
  also have "\<dots> = emit (restore_spec [a0, a1, a2, a3, a4, a5, a6, a7])
      (?s3\<lparr>ledState := [a0, a1, a2, a3, a4, a5, a6, a7]\<rparr>)"
    using all unfolding xs by (intro animation_restore) simp_all
  also have "\<dots> = emit (animation_spec (ledState s)) s"
    unfolding animation_spec_def xs [symmetric] by (simp add: emit_def)
  finally have "startupLedAnimation s = emit (animation_spec (ledState s)) s" .
  then show ?thesis
    by (simp add: ledAnimation_def)
qed

theorem startupLedAnimation_plays_frames_and_restores_witness:
  "led_inv (setLed 2 1 (power_on (\<lambda>a. 255))) \<and>
   ledState (setLed 2 1 (power_on (\<lambda>a. 255))) = [0, 0, 1, 0, 0, 0, 0, 0] \<and>
   ledState (startupLedAnimation (setLed 2 1 (power_on (\<lambda>a. 255)))) = [0, 0, 1, 0, 0, 0, 0, 0] \<and>
   trace (startupLedAnimation (power_on (\<lambda>a. 255))) =
     [DigitalWrite 2 LOW, DigitalWrite 9 LOW, Delay 250,
      DigitalWrite 3 LOW, DigitalWrite 8 LOW, DigitalWrite 2 HIGH, DigitalWrite 9 HIGH, Delay 250,
      DigitalWrite 4 LOW, DigitalWrite 7 LOW, DigitalWrite 3 HIGH, DigitalWrite 8 HIGH, Delay 250,
      DigitalWrite 5 LOW, DigitalWrite 6 LOW, DigitalWrite 4 HIGH, DigitalWrite 7 HIGH, Delay 250,
      DigitalWrite 9 LOW, DigitalWrite 2 LOW, DigitalWrite 5 HIGH, DigitalWrite 6 HIGH, Delay 250,
      DigitalWrite 8 LOW, DigitalWrite 3 LOW, DigitalWrite 9 HIGH, DigitalWrite 2 HIGH, Delay 250,
      DigitalWrite 7 LOW, DigitalWrite 4 LOW, DigitalWrite 8 HIGH, DigitalWrite 3 HIGH, Delay 250,
      DigitalWrite 6 LOW, DigitalWrite 5 LOW, DigitalWrite 7 HIGH, DigitalWrite 4 HIGH, Delay 250,
      DigitalWrite 2 LOW, DigitalWrite 9 LOW, DigitalWrite 6 HIGH, DigitalWrite 5 HIGH, Delay 250,
      DigitalWrite 2 HIGH, DigitalWrite 9 HIGH,
      DigitalWrite 2 HIGH, DigitalWrite 3 HIGH, DigitalWrite 4 HIGH, DigitalWrite 5 HIGH,
      DigitalWrite 6 HIGH, DigitalWrite 7 HIGH, DigitalWrite 8 HIGH, DigitalWrite 9 HIGH]"
proof -
  have h0: "led_inv (power_on (\<lambda>a. 255))"
    by (rule led_inv_power_on)
  then have h: "led_inv (setLed 2 1 (power_on (\<lambda>a. 255)))"
    by (rule led_inv_setLed)
  have l: "ledState (setLed 2 1 (power_on (\<lambda>a. 255))) = [0, 0, 1, 0, 0, 0, 0, 0]"
    by (simp add: setLed_def power_on_def eval_nat_numeral)
  have t: "trace (power_on (\<lambda>a. 255)) = []" "ledState (power_on (\<lambda>a. 255)) = [0, 0, 0, 0, 0, 0, 0, 0]"
    by (simp_all add: power_on_def eval_nat_numeral)
  from startupLedAnimation_plays_frames_and_restores [OF h] l
  have 1: "ledState (startupLedAnimation (setLed 2 1 (power_on (\<lambda>a. 255)))) = [0, 0, 1, 0, 0, 0, 0, 0]"
    by simp
  from startupLedAnimation_plays_frames_and_restores [OF h0]
  have "trace (startupLedAnimation (power_on (\<lambda>a. 255))) =
      animation_spec [0, 0, 0, 0, 0, 0, 0, 0]"
    by (simp add: t)
  then show ?thesis
    using h l 1
    by (simp add: animation_spec_def restore_spec_def ledAnimation_def led_on_def led_off_def
        ledPin_def upt_0_8)
qed

section \<open>Properties of the command dispatcher\<close>

lemma help_column_handlers: "map helptext handlers = help_column"
  by (simp add: handlers_def help_column_def)

lemma atoi_examples:
  "atoi ''1'' = 1" "atoi ''2'' = 2" "atoi ''3'' = 3" "atoi ''65'' = 65" "atoi ''256'' = 256"
  by (simp_all add: atoi_def isspace_def isdigit_def)

lemma lookup_handler_None:
  "lookup_handler word = None \<longleftrightarrow>
     (\<forall>h \<in> set handlers. command h \<noteq> word \<and> shortcode h \<noteq> word)"
  unfolding lookup_handler_def find_None_iff by blast

lemma executeSerialCommands_loop_unknown:
  "lookup_handler word = None \<Longrightarrow>
   executeSerialCommands_loop word s = emit [SerialPrint (''Unknown Command Error'' @ [LF])] s"
  by (simp add: executeSerialCommands_loop.simps)

lemma executeSerialCommands_loop_abort:
  "lookup_handler word = Some h \<Longrightarrow> handler h s = (r, s1) \<Longrightarrow> r \<noteq> 0 \<Longrightarrow>
   executeSerialCommands_loop word s = s1"
  by (simp add: executeSerialCommands_loop.simps)

lemmas line_eval =
  executeSerialCommands_def strtok_readBuffer_def strtok_scan_def
  executeSerialCommands_loop.simps lookup_handler_def handlers_def
  parseNumber_def strtok_NULL_def atoi_examples setLed_def emit_def ledPin_def

text \<open>
  C1.  A word in verb position that is neither the name nor the shortcode of a table entry
  makes the dispatcher print the unknown-command error and return at once: the machine state
  is otherwise as it was, and the rest of the line stays unread in \<open>strtok_save\<close>.  The line
  \<open>on 1 badcmd off 3\<close> switches LED 1 on (pin 2 low), prints one such error and ends there:
  every other LED, LED 3 included, keeps its state, and \<open>off 3\<close> is left unread.
\<close>

theorem unknown_command_stops_line:
  assumes "\<forall>h \<in> set handlers. command h \<noteq> word \<and> shortcode h \<noteq> word"
  shows "executeSerialCommands_loop word s =
           emit [SerialPrint (''Unknown Command Error'' @ [LF])] s \<and>
         executeSerialCommands (s'\<lparr>readBuffer := ''on 1 badcmd off 3''\<rparr>) =
           emit [DigitalWrite 2 LOW, SerialPrint (''Unknown Command Error'' @ [LF])]
             (s'\<lparr>readBuffer := ''on 1 badcmd off 3'', ledState := (ledState s')[0 := 1],
                 strtok_save := ''off 3''\<rparr>) \<and>
         handleSerialReceive (''on 1 badcmd off 3'' @ [LF]) (clearReadBuffer s') =
           Inr (emit [DigitalWrite 2 LOW, SerialPrint (''Unknown Command Error'' @ [LF])]
                  (s'\<lparr>readBuffer := [], ledState := (ledState s')[0 := 1],
                      strtok_save := ''off 3''\<rparr>))"
proof -
  from assms have "lookup_handler word = None"
    by (simp only: lookup_handler_None)
  then have 1: "executeSerialCommands_loop word s =
      emit [SerialPrint (''Unknown Command Error'' @ [LF])] s"
    by (rule executeSerialCommands_loop_unknown)
  have 2: "executeSerialCommands (s'\<lparr>readBuffer := ''on 1 badcmd off 3''\<rparr>) =
      emit [DigitalWrite 2 LOW, SerialPrint (''Unknown Command Error'' @ [LF])]
        (s'\<lparr>readBuffer := ''on 1 badcmd off 3'', ledState := (ledState s')[0 := 1],
            strtok_save := ''off 3''\<rparr>)"
    by (simp add: line_eval handleOn_def)
  have "handleSerialReceive (''on 1 badcmd off 3'' @ [LF]) (clearReadBuffer s') =
      Inr (clearReadBuffer (executeSerialCommands (s'\<lparr>readBuffer := take 79 ''on 1 badcmd off 3''\<rparr>)))"
    by (rule handleSerialReceive_truncated_line) simp_all
  then have 3: "handleSerialReceive (''on 1 badcmd off 3'' @ [LF]) (clearReadBuffer s') =
      Inr (emit [DigitalWrite 2 LOW, SerialPrint (''Unknown Command Error'' @ [LF])]
             (s'\<lparr>readBuffer := [], ledState := (ledState s')[0 := 1], strtok_save := ''off 3''\<rparr>))"
    by (simp add: 2 clearReadBuffer_def emit_def)
  from 1 2 3 show ?thesis by (intro conjI)
qed

theorem unknown_command_stops_line_witness:
  "lookup_handler ''badcmd'' = None \<and>
   executeSerialCommands_loop ''badcmd'' (power_on (\<lambda>a. 255)) =
     emit [SerialPrint (''Unknown Command Error'' @ [LF])] (power_on (\<lambda>a. 255)) \<and>
   ledState (executeSerialCommands ((power_on (\<lambda>a. 255))\<lparr>readBuffer := ''on 1 badcmd off 3''\<rparr>))
     = [1, 0, 0, 0, 0, 0, 0, 0] \<and>
   trace (executeSerialCommands ((power_on (\<lambda>a. 255))\<lparr>readBuffer := ''on 1 badcmd off 3''\<rparr>))
     = [DigitalWrite 2 LOW, SerialPrint (''Unknown Command Error'' @ [LF])]"
proof -
  have h: "\<forall>h \<in> set handlers. command h \<noteq> ''badcmd'' \<and> shortcode h \<noteq> ''badcmd''"
    by (simp add: handlers_def)
  then have n: "lookup_handler ''badcmd'' = None"
    by (simp only: lookup_handler_None)
  have p: "ledState (power_on (\<lambda>a. 255)) = [0, 0, 0, 0, 0, 0, 0, 0]" "trace (power_on (\<lambda>a. 255)) = []"
    by (simp_all add: power_on_def eval_nat_numeral)
  from n unknown_command_stops_line [OF h, of "power_on (\<lambda>a. 255)" "power_on (\<lambda>a. 255)"]
  show ?thesis
    by (simp add: p)
qed


text \<open>
  C4.  With the alternate map selected by \<open>usemap 2\<close>, \<open>setkeycode 1 65\<close> writes code 65
  (the letter A) to entry 1 of the alternate key map and to nothing else: the primary key
  map, the other entries of the alternate key map and both LED behaviour maps are as before.
  After \<open>usemap 1\<close> the primary map is selected again, and pressing key 1 sends the code the
  primary map had for it from the start.
\<close>

theorem setkeycode_changes_only_the_active_map:
  assumes "wf_config (config s)"
    and "s1 = executeSerialCommands (s\<lparr>readBuffer := ''usemap 2 setkeycode 1 65''\<rparr>)"
    and "s2 = executeSerialCommands (s1\<lparr>readBuffer := ''usemap 1''\<rparr>)"
  shows "useAlternateKeyMap s1 \<and>
         keyMap1 (config s1) = keyMap1 (config s) \<and>
         keyMap2 (config s1) = (keyMap2 (config s))[0 := CHR ''A''] \<and>
         keyMap2 (config s1) ! 0 = CHR ''A'' \<and>
         (i \<noteq> 0 \<longrightarrow> keyMap2 (config s1) ! i = keyMap2 (config s) ! i) \<and>
         ledConfig1 (config s1) = ledConfig1 (config s) \<and>
         ledConfig2 (config s1) = ledConfig2 (config s) \<and>
         ledState s1 = ledState s \<and> trace s1 = trace s \<and>
         \<not> useAlternateKeyMap s2 \<and> config s2 = config s1 \<and>
         (if useAlternateKeyMap s2 then keyMap2 (config s2) ! 0 else keyMap1 (config s2) ! 0)
           = keyMap1 (config s) ! 0 \<and>
         loop [] 1 s2 =
           Inr (emit [Delay 20]
                  (executeLedConfig 0
                     ((emit [KeyboardWrite (keyMap1 (config s) ! 0)] s2)\<lparr>lastKey := char_of (1 :: nat)\<rparr>)))"
proof -
  have "char_of (65 AND 255 :: int) = CHR ''A''"
    by code_simp
  then have 1: "s1 = s\<lparr>readBuffer := ''usemap 2 setkeycode 1 65'', strtok_save := [],
      useAlternateKeyMap := True,
      config := (config s)\<lparr>keyMap2 := (keyMap2 (config s))[0 := CHR ''A'']\<rparr>\<rparr>"
    unfolding assms(2)
    by (simp add: line_eval handleActivateKeyMap_def handleSetKeyCode_def)
  have 2: "s2 = s1\<lparr>readBuffer := ''usemap 1'', strtok_save := [], useAlternateKeyMap := False\<rparr>"
    unfolding assms(3)
    by (simp add: line_eval handleActivateKeyMap_def)
  from assms(1) have len: "0 < length (keyMap2 (config s))"
    by (simp add: wf_config_def)
  have k: "\<not> useAlternateKeyMap s2" "keyMap1 (config s2) = keyMap1 (config s)"
    unfolding 2 1 by simp_all
  have l: "loop [] 1 s2 =
      Inr (emit [Delay 20]
             (executeLedConfig 0
                ((emit [KeyboardWrite (keyMap1 (config s) ! 0)] s2)\<lparr>lastKey := char_of (1 :: nat)\<rparr>)))"
    unfolding loop_def using k by simp
  show ?thesis
    using len k l unfolding 2 1 by simp
qed

theorem setkeycode_changes_only_the_active_map_witness:
  "wf_config (config (power_on (\<lambda>a. 255))) \<and>
   keyMap1 (config (executeSerialCommands
       ((power_on (\<lambda>a. 255))\<lparr>readBuffer := ''usemap 2 setkeycode 1 65''\<rparr>)))
     = keyMap1 default_config \<and>
   keyMap2 (config (executeSerialCommands
       ((power_on (\<lambda>a. 255))\<lparr>readBuffer := ''usemap 2 setkeycode 1 65''\<rparr>)))
     = ''A2345678'' \<and>
   keyMap2 (config (executeSerialCommands
       ((power_on (\<lambda>a. 255))\<lparr>readBuffer := ''usemap 2 setkeycode 1 65''\<rparr>))) ! 3
     = CHR ''4''"
proof -
  have h: "wf_config (config (power_on (\<lambda>a. 255)))"
    by (simp add: wf_config_def power_on_def default_config_def)
  have c: "config (power_on (\<lambda>a. 255)) = default_config"
    by (simp add: power_on_def)
  from setkeycode_changes_only_the_active_map [OF h refl refl, of 3] h
  show ?thesis
    unfolding c by (simp add: default_config_def)
qed


subsection \<open>Numeric arguments out of range\<close>

lemma read_args_1:
  "read_args (Suc 0) s = Some (args, s') \<longleftrightarrow>
     (\<exists>w. strtok_NULL s = (Some w, s') \<and> args = [w])"
  by (auto split: prod.splits option.splits)

lemma read_args_2:
  "read_args (Suc (Suc 0)) s = Some (args, s') \<longleftrightarrow>
     (\<exists>w1 s1 w2. strtok_NULL s = (Some w1, s1) \<and> strtok_NULL s1 = (Some w2, s') \<and>
        args = [w1, w2])"
  by (auto split: prod.splits option.splits)

lemma parseNumber_in_range:
  "strtok_NULL s = (Some w, s1) \<Longrightarrow> lo \<le> atoi w \<Longrightarrow> atoi w \<le> hi \<Longrightarrow>
   parseNumber lo hi s = (atoi w, s1)"
  by (simp add: parseNumber_def)

lemma parseNumber_out_of_range:
  "strtok_NULL s = (Some w, s1) \<Longrightarrow> atoi w < lo \<or> hi < atoi w \<Longrightarrow>
   parseNumber lo hi s = (- 1, emit (range_error (lo, hi)) s1)"
  by (auto simp: parseNumber_def range_error_def)

lemma first_argument_out_of_range:
  assumes "strtok_NULL s = (Some w, s1)"
  shows "atoi w < 1 \<or> 8 < atoi w \<Longrightarrow> handleGetLed s = (1, emit (range_error (1, 8)) s1)"
    and "atoi w < 1 \<or> 8 < atoi w \<Longrightarrow> handleToggle s = (1, emit (range_error (1, 8)) s1)"
    and "atoi w < 1 \<or> 8 < atoi w \<Longrightarrow> handleOn s = (1, emit (range_error (1, 8)) s1)"
    and "atoi w < 1 \<or> 8 < atoi w \<Longrightarrow> handleOff s = (1, emit (range_error (1, 8)) s1)"
    and "atoi w < 1 \<or> 8 < atoi w \<Longrightarrow> handleFlash s = (1, emit (range_error (1, 8)) s1)"
    and "atoi w < 1 \<or> 2 < atoi w \<Longrightarrow> handleActivateKeyMap s = (1, emit (range_error (1, 2)) s1)"
    and "atoi w < 1 \<or> 8 < atoi w \<Longrightarrow> handleConfigToggle s = (1, emit (range_error (1, 8)) s1)"
    and "atoi w < 1 \<or> 8 < atoi w \<Longrightarrow> handleSetKeyCode s = (1, emit (range_error (1, 8)) s1)"
    and "atoi w < 1 \<or> 8 < atoi w \<Longrightarrow> handleSetKeyChar s = (1, emit (range_error (1, 8)) s1)"
  using parseNumber_out_of_range [OF assms, of 1 8] parseNumber_out_of_range [OF assms, of 1 2]
  by (simp_all add: handleGetLed_def handleToggle_def handleOn_def handleOff_def handleFlash_def
      handleActivateKeyMap_def handleConfigToggle_def handleSetKeyCode_def handleSetKeyChar_def)

lemma second_argument_out_of_range:
  assumes "strtok_NULL s = (Some w1, s1)" and "1 \<le> atoi w1" and "atoi w1 \<le> 8"
    and "strtok_NULL s1 = (Some w2, s2)"
  shows "atoi w2 < 10 \<or> 500 < atoi w2 \<Longrightarrow> handleFlash s = (1, emit (range_error (10, 500)) s2)"
    and "atoi w2 < 0 \<or> 255 < atoi w2 \<Longrightarrow> handleSetKeyCode s = (1, emit (range_error (0, 255)) s2)"
  using parseNumber_in_range [OF assms(1-3)] assms(2)
    parseNumber_out_of_range [OF assms(4), of 10 500]
    parseNumber_out_of_range [OF assms(4), of 0 255]
  by (simp_all add: handleFlash_def handleSetKeyCode_def)

lemma handler_of_command:
  assumes "lookup_handler word = Some h"
  shows "command h = ''getled'' \<Longrightarrow> handler h = handleGetLed"
    and "command h = ''toggle'' \<Longrightarrow> handler h = handleToggle"
    and "command h = ''on'' \<Longrightarrow> handler h = handleOn"
    and "command h = ''off'' \<Longrightarrow> handler h = handleOff"
    and "command h = ''flash'' \<Longrightarrow> handler h = handleFlash"
    and "command h = ''usemap'' \<Longrightarrow> handler h = handleActivateKeyMap"
    and "command h = ''configtoggle'' \<Longrightarrow> handler h = handleConfigToggle"
    and "command h = ''setkeycode'' \<Longrightarrow> handler h = handleSetKeyCode"
    and "command h = ''setkeychar'' \<Longrightarrow> handler h = handleSetKeyChar"
  using lookup_handler_Some(1) [OF assms] unfolding handlers_def by auto

lemma read_args_same:
  "read_args n s = Some (args, s') \<Longrightarrow>
     config s' = config s \<and> useAlternateKeyMap s' = useAlternateKeyMap s \<and>
     ledState s' = ledState s \<and> lastKey s' = lastKey s \<and> readBuffer s' = readBuffer s \<and>
     eeprom s' = eeprom s \<and> trace s' = trace s"
proof (induction n arbitrary: s args)
  case 0
  then show ?case by simp
next
  case (Suc n)
  then obtain w s1 ws where 1: "strtok_NULL s = (Some w, s1)" and 2: "read_args n s1 = Some (ws, s')"
    by (auto split: prod.splits option.splits)
  from Suc.IH [OF 2] strtok_NULL_fields(1-7) [OF 1] show ?case
    by simp
qed

lemma read_args_only_strtok_save:
  assumes "read_args n s = Some (args, s')"
  shows "emit es s' = s\<lparr>strtok_save := strtok_save s', trace := trace s @ es\<rparr>"
  using read_args_same [OF assms]
  by (intro state.equality) (simp_all add: emit_def)

text \<open>
  C5.  When a verb is given a numeric argument whose parsed value (the result of \<open>atoi\<close>)
  lies outside the range declared for it, all numeric arguments before it being in range,
  the dispatcher prints the range error for that argument and returns: the line is read up
  to and including the offending token and no further, and the configuration (the active
  map's entry included), the active map selector, the LED state and the EEPROM are what
  they were.
\<close>

theorem out_of_range_argument_stops_line:
  assumes "(verb, ranges) \<in> set declared_ranges"
    and "lookup_handler word = Some h" and "command h = verb"
    and "j < length ranges"
    and "read_args (Suc j) s = Some (args, s')"
    and "\<forall>i<j. fst (ranges ! i) \<le> atoi (args ! i) \<and> atoi (args ! i) \<le> snd (ranges ! i)"
    and "atoi (args ! j) < fst (ranges ! j) \<or> snd (ranges ! j) < atoi (args ! j)"
  shows "executeSerialCommands_loop word s = emit (range_error (ranges ! j)) s' \<and>
         executeSerialCommands_loop word s =
           s\<lparr>strtok_save := strtok_save s', trace := trace s @ range_error (ranges ! j)\<rparr> \<and>
         config (executeSerialCommands_loop word s) = config s \<and>
         useAlternateKeyMap (executeSerialCommands_loop word s) = useAlternateKeyMap s \<and>
         ledState (executeSerialCommands_loop word s) = ledState s \<and>
         eeprom (executeSerialCommands_loop word s) = eeprom s"
proof -
  note hc = handler_of_command [OF assms(2), unfolded assms(3)]
  have first: "handler h s = (1, emit (range_error (ranges ! j)) s')"
    if "j = 0" and "ranges ! 0 = (lo, hi)"
      and "\<And>w. strtok_NULL s = (Some w, s') \<Longrightarrow> atoi w < lo \<or> hi < atoi w \<Longrightarrow>
             handler h s = (1, emit (range_error (lo, hi)) s')" for lo hi
  proof -
    from assms(5) have "read_args (Suc 0) s = Some (args, s')"
      unfolding \<open>j = 0\<close> .
    then obtain w where w: "strtok_NULL s = (Some w, s')" and a: "args = [w]"
      unfolding read_args_1 by blast
    from assms(7) that(1,2) a have "atoi w < lo \<or> hi < atoi w"
      by simp
    with w that show ?thesis
      by simp
  qed
  have second: "handler h s = (1, emit (range_error (ranges ! j)) s')"
    if "j = Suc 0" and "ranges ! 0 = (1, 8)" and "ranges ! Suc 0 = (lo, hi)"
      and "\<And>w1 s1 w2. strtok_NULL s = (Some w1, s1) \<Longrightarrow> 1 \<le> atoi w1 \<Longrightarrow> atoi w1 \<le> 8 \<Longrightarrow>
             strtok_NULL s1 = (Some w2, s') \<Longrightarrow> atoi w2 < lo \<or> hi < atoi w2 \<Longrightarrow>
             handler h s = (1, emit (range_error (lo, hi)) s')" for lo hi
  proof -
    from assms(5) have "read_args (Suc (Suc 0)) s = Some (args, s')"
      unfolding \<open>j = Suc 0\<close> .
    then obtain w1 s1 w2 where w1: "strtok_NULL s = (Some w1, s1)"
      and w2: "strtok_NULL s1 = (Some w2, s')" and a: "args = [w1, w2]"
      unfolding read_args_2 by blast
    from assms(6) that(1,2) a have ok: "1 \<le> atoi w1" "atoi w1 \<le> 8"
      by simp_all
    from assms(7) that(1,3) a have "atoi w2 < lo \<or> hi < atoi w2"
      by simp
    with w1 ok w2 that show ?thesis
      by simp
  qed
  from assms(1) have
    "verb = ''getled'' \<and> ranges = [(1, 8)] \<or> verb = ''toggle'' \<and> ranges = [(1, 8)] \<or>
     verb = ''on'' \<and> ranges = [(1, 8)] \<or> verb = ''off'' \<and> ranges = [(1, 8)] \<or>
     verb = ''flash'' \<and> ranges = [(1, 8), (10, 500)] \<or>
     verb = ''usemap'' \<and> ranges = [(1, 2)] \<or>
     verb = ''configtoggle'' \<and> ranges = [(1, 8)] \<or>
     verb = ''setkeycode'' \<and> ranges = [(1, 8), (0, 255)] \<or>
     verb = ''setkeychar'' \<and> ranges = [(1, 8)]"
    unfolding declared_ranges_def
    by (simp only: list.set insert_iff empty_iff prod.inject simp_thms)
  then have key: "handler h s = (1, emit (range_error (ranges ! j)) s')"
  proof (elim disjE conjE, goal_cases)
    case 1
    from assms(4) 1(2) have j: "j = 0" by simp
    from 1(2) have r: "ranges ! 0 = (1, 8)" by simp
    show ?case
      using j r by (rule first) (simp add: hc(1) [OF 1(1)] first_argument_out_of_range(1))
  next
    case 2
    from assms(4) 2(2) have j: "j = 0" by simp
    from 2(2) have r: "ranges ! 0 = (1, 8)" by simp
    show ?case
      using j r by (rule first) (simp add: hc(2) [OF 2(1)] first_argument_out_of_range(2))
  next
    case 3
    from assms(4) 3(2) have j: "j = 0" by simp
    from 3(2) have r: "ranges ! 0 = (1, 8)" by simp
    show ?case
      using j r by (rule first) (simp add: hc(3) [OF 3(1)] first_argument_out_of_range(3))
  next
    case 4
    from assms(4) 4(2) have j: "j = 0" by simp
    from 4(2) have r: "ranges ! 0 = (1, 8)" by simp
    show ?case
      using j r by (rule first) (simp add: hc(4) [OF 4(1)] first_argument_out_of_range(4))
  next
    case 5
    from assms(4) 5(2) have "j = 0 \<or> j = Suc 0" by auto
    moreover from 5(2) have r: "ranges ! 0 = (1, 8)" "ranges ! Suc 0 = (10, 500)" by simp_all
    moreover have "handler h s = (1, emit (range_error (ranges ! j)) s')" if "j = 0"
      using that r(1) by (rule first) (simp add: hc(5) [OF 5(1)] first_argument_out_of_range(5))
    moreover have "handler h s = (1, emit (range_error (ranges ! j)) s')" if "j = Suc 0"
      using that r by (rule second) (simp add: hc(5) [OF 5(1)] second_argument_out_of_range(1))
    ultimately show ?case by blast
  next
    case 6
    from assms(4) 6(2) have j: "j = 0" by simp
    from 6(2) have r: "ranges ! 0 = (1, 2)" by simp
    show ?case
      using j r by (rule first) (simp add: hc(6) [OF 6(1)] first_argument_out_of_range(6))
  next
    case 7
    from assms(4) 7(2) have j: "j = 0" by simp
    from 7(2) have r: "ranges ! 0 = (1, 8)" by simp
    show ?case
      using j r by (rule first) (simp add: hc(7) [OF 7(1)] first_argument_out_of_range(7))
  next
    case 8
    from assms(4) 8(2) have "j = 0 \<or> j = Suc 0" by auto
    moreover from 8(2) have r: "ranges ! 0 = (1, 8)" "ranges ! Suc 0 = (0, 255)" by simp_all
    moreover have "handler h s = (1, emit (range_error (ranges ! j)) s')" if "j = 0"
      using that r(1) by (rule first) (simp add: hc(8) [OF 8(1)] first_argument_out_of_range(8))
    moreover have "handler h s = (1, emit (range_error (ranges ! j)) s')" if "j = Suc 0"
      using that r by (rule second) (simp add: hc(8) [OF 8(1)] second_argument_out_of_range(2))
    ultimately show ?case by blast
  next
    case 9
    from assms(4) 9(2) have j: "j = 0" by simp
    from 9(2) have r: "ranges ! 0 = (1, 8)" by simp
    show ?case
      using j r by (rule first) (simp add: hc(9) [OF 9(1)] first_argument_out_of_range(9))
  qed
  have 1: "executeSerialCommands_loop word s = emit (range_error (ranges ! j)) s'"
    using assms(2) key by (rule executeSerialCommands_loop_abort) simp
  note 2 = read_args_only_strtok_save [OF assms(5), of "range_error (ranges ! j)"]
  show ?thesis
    unfolding 1 unfolding 2 by simp
qed


theorem out_of_range_argument_stops_line_witness:
  "executeSerialCommands_loop ''setkeycode''
     ((power_on (\<lambda>a. 255))\<lparr>strtok_save := ''1 256 on 3''\<rparr>) =
     emit (range_error (0, 255)) ((power_on (\<lambda>a. 255))\<lparr>strtok_save := ''on 3''\<rparr>) \<and>
   config (executeSerialCommands_loop ''setkeycode''
     ((power_on (\<lambda>a. 255))\<lparr>strtok_save := ''1 256 on 3''\<rparr>)) = default_config \<and>
   ledState (executeSerialCommands_loop ''setkeycode''
     ((power_on (\<lambda>a. 255))\<lparr>strtok_save := ''1 256 on 3''\<rparr>)) = [0, 0, 0, 0, 0, 0, 0, 0] \<and>
   range_error (0, 255) =
     [SerialPrint ''Error, expected number from '', SerialPrint ''0'',
      SerialPrint '' to '', SerialPrint (''255'' @ [CR, LF])]"
proof -
  let ?s = "(power_on (\<lambda>a. 255))\<lparr>strtok_save := ''1 256 on 3''\<rparr>"
  let ?h = "\<lparr>shortcode = ''k'', command = ''setkeycode'', helptext = MSG_SETKEYCODE,
             handler = handleSetKeyCode\<rparr>"
  have 1: "(''setkeycode'', [(1, 8), (0, 255)]) \<in> set declared_ranges"
    by (simp add: declared_ranges_def)
  have 2: "lookup_handler ''setkeycode'' = Some ?h"
    by (simp add: lookup_handler_def handlers_def)
  have 3: "command ?h = ''setkeycode''"
    by simp
  have 4: "Suc 0 < length [(1 :: int, 8 :: int), (0, 255)]"
    by simp
  have 5: "read_args (Suc (Suc 0)) ?s =
      Some ([''1'', ''256''], (power_on (\<lambda>a. 255))\<lparr>strtok_save := ''on 3''\<rparr>)"
    by (simp add: strtok_NULL_def strtok_scan_def)
  have 6: "\<forall>i<Suc 0. fst ([(1, 8), (0, 255)] ! i) \<le> atoi ([''1'', ''256''] ! i) \<and>
      atoi ([''1'', ''256''] ! i) \<le> snd ([(1, 8), (0, 255)] ! i)"
    by (simp add: atoi_examples)
  have 7: "atoi ([''1'', ''256''] ! Suc 0) < fst ([(1, 8), (0, 255)] ! Suc 0) \<or>
      snd ([(1, 8), (0, 255)] ! Suc 0) < atoi ([''1'', ''256''] ! Suc 0)"
    by (simp add: atoi_examples)
  have "dec 0 = ''0''"
    by code_simp
  moreover have "dec 255 = ''255''"
    by code_simp
  ultimately have d: "dec 0 = ''0''" "dec 255 = ''255''"
    by blast+
  have p: "config (power_on (\<lambda>a. 255)) = default_config"
    "ledState (power_on (\<lambda>a. 255)) = [0, 0, 0, 0, 0, 0, 0, 0]"
    by (simp_all add: power_on_def eval_nat_numeral)
  from out_of_range_argument_stops_line [OF 1 2 3 4 5 6 7] show ?thesis
    by (simp add: p range_error_def println_def d)
qed

end
